theory Spec2Isabelle
  imports Main "HOL-Library.Word"
begin

unbundle bit_operations_syntax

section \<open>JavaScript values used by the library\<close>

text \<open>
  A JavaScript string is a sequence of UTF-16 code units; \<open>length\<close>, \<open>substring\<close>
  and \<open>indexOf\<close> all count code units.  A JavaScript number that the library obtains
  from \<open>parseInt\<close> is either an integer or \<open>NaN\<close>.  (Integers are kept exact here;
  the engine rounds beyond \<open>2 ^ 53\<close>, which no string length reaches.)
\<close>

type_synonym jsstring = "16 word list"

datatype jsnum = NaN | Num int

text \<open>The comparisons \<open><\<close>, \<open>>=\<close> and \<open>>\<close> of JavaScript: false as soon as one side is \<open>NaN\<close>.\<close>

fun js_lt :: "jsnum \<Rightarrow> jsnum \<Rightarrow> bool" where
  "js_lt (Num a) (Num b) = (a < b)"
| "js_lt _ _ = False"

fun js_ge :: "jsnum \<Rightarrow> jsnum \<Rightarrow> bool" where
  "js_ge (Num a) (Num b) = (a \<ge> b)"
| "js_ge _ _ = False"

fun js_gt :: "jsnum \<Rightarrow> jsnum \<Rightarrow> bool" where
  "js_gt (Num a) (Num b) = (a > b)"
| "js_gt _ _ = False"

text \<open>Addition and subtraction: \<open>NaN\<close> is absorbing.\<close>

fun js_add :: "jsnum \<Rightarrow> jsnum \<Rightarrow> jsnum" where
  "js_add (Num a) (Num b) = Num (a + b)"
| "js_add _ _ = NaN"

fun js_sub :: "jsnum \<Rightarrow> jsnum \<Rightarrow> jsnum" where
  "js_sub (Num a) (Num b) = Num (a - b)"
| "js_sub _ _ = NaN"

text \<open>Strict equality \<open>===\<close> (and \<open>==\<close> between numbers): \<open>NaN\<close> equals nothing, itself included.\<close>

fun js_eq :: "jsnum \<Rightarrow> jsnum \<Rightarrow> bool" where
  "js_eq (Num a) (Num b) = (a = b)"
| "js_eq _ _ = False"

section \<open>Strings: the built-in operations the library calls\<close>

text \<open>A string literal of the source, as code units.\<close>

definition js :: "string \<Rightarrow> jsstring" where
  "js s = map of_char s"

text \<open>
  \<open>ToIntegerOrInfinity\<close> followed by the clamp to \<open>[0, len]\<close> that \<open>substring\<close> and
  \<open>indexOf\<close> apply to a position argument: \<open>NaN\<close> counts as 0.
\<close>

definition clamp_index :: "jsnum \<Rightarrow> nat \<Rightarrow> nat" where
  "clamp_index n len = (case n of NaN \<Rightarrow> 0 | Num i \<Rightarrow> min (nat i) len)"

text \<open>\<open>s.substring(start, end)\<close>: both positions clamped, swapped when out of order.\<close>

definition substring :: "jsstring \<Rightarrow> jsnum \<Rightarrow> jsnum \<Rightarrow> jsstring" where
  "substring s start end =
     (let finalStart = clamp_index start (length s);
          finalEnd = clamp_index end (length s);
          from = min finalStart finalEnd;
          to = max finalStart finalEnd
      in take (to - from) (drop from s))"

text \<open>\<open>s.substring(start)\<close>: the end defaults to the length.\<close>

definition substring_from :: "jsstring \<Rightarrow> jsnum \<Rightarrow> jsstring" where
  "substring_from s start = substring s start (Num (int (length s)))"

text \<open>Position of the first occurrence of a code unit in a list, if any.\<close>

fun first_index :: "16 word \<Rightarrow> jsstring \<Rightarrow> nat option" where
  "first_index c [] = None"
| "first_index c (x # xs) =
     (if x = c then Some 0
      else (case first_index c xs of None \<Rightarrow> None | Some k \<Rightarrow> Some (Suc k)))"

text \<open>\<open>s.indexOf(c, position)\<close> for a one-character search string; \<open>-1\<close> when absent.\<close>

definition indexOf :: "jsstring \<Rightarrow> 16 word \<Rightarrow> jsnum \<Rightarrow> int" where
  "indexOf s c position =
     (let start = clamp_index position (length s)
      in (case first_index c (drop start s) of
            None \<Rightarrow> - 1
          | Some k \<Rightarrow> int (start + k)))"

text \<open>
  \<open>parseInt(string)\<close> with no radix, after ECMAScript: leading white space is skipped,
  a sign is read, a \<open>0x\<close> or \<open>0X\<close> prefix selects radix 16, then the longest prefix of
  digits of the radix is the value; no digit at all gives \<open>NaN\<close>.  Whatever follows the
  digits is ignored.  The value is kept as the exact integer the digits denote: this is
  the Number JavaScript returns as long as its magnitude is at most \<open>2 ^ 53\<close>; beyond
  that JavaScript rounds to the nearest double and this definition does not, so
  nothing is to be read off it for such inputs (no length of a JavaScript string and
  no stream index in use is that large).
\<close>

definition isWhiteSpace :: "16 word \<Rightarrow> bool" where
  "isWhiteSpace c =
     (c \<in> {0x0009, 0x000A, 0x000B, 0x000C, 0x000D, 0x0020, 0x00A0, 0x1680,
            0x2028, 0x2029, 0x202F, 0x205F, 0x3000, 0xFEFF}
      \<or> (0x2000 \<le> c \<and> c \<le> 0x200A))"

definition digitValue :: "16 word \<Rightarrow> nat option" where
  "digitValue c =
     (if 0x30 \<le> c \<and> c \<le> 0x39 then Some (unat c - 0x30)
      else if 0x61 \<le> c \<and> c \<le> 0x7A then Some (unat c - 0x61 + 10)
      else if 0x41 \<le> c \<and> c \<le> 0x5A then Some (unat c - 0x41 + 10)
      else None)"

definition isRadixDigit :: "nat \<Rightarrow> 16 word \<Rightarrow> bool" where
  "isRadixDigit R c = (case digitValue c of None \<Rightarrow> False | Some d \<Rightarrow> d < R)"

definition mathInt :: "nat \<Rightarrow> jsstring \<Rightarrow> nat" where
  "mathInt R Z = foldl (\<lambda>acc c. acc * R + (case digitValue c of None \<Rightarrow> 0 | Some d \<Rightarrow> d)) 0 Z"

definition parseInt :: "jsstring \<Rightarrow> jsnum" where
  "parseInt inputString =
     (let S = dropWhile isWhiteSpace inputString;
          sign = (case S of c # _ \<Rightarrow> (if c = 0x2D then - 1 else 1) | [] \<Rightarrow> (1::int));
          S1 = (case S of c # rest \<Rightarrow> (if c = 0x2B \<or> c = 0x2D then rest else S) | [] \<Rightarrow> S);
          hex = (case S1 of a # b # _ \<Rightarrow> a = 0x30 \<and> (b = 0x78 \<or> b = 0x58) | _ \<Rightarrow> False);
          R = (if hex then 16 else 10);
          S2 = (if hex then drop 2 S1 else S1);
          Z = takeWhile (isRadixDigit R) S2
      in if Z = [] then NaN else Num (sign * int (mathInt R Z)))"

text \<open>
  An array read \<open>parameters[i]\<close> is \<open>undefined\<close> past the end, and \<open>parseInt(undefined)\<close>
  is \<open>NaN\<close> (the text \<open>undefined\<close> has no digit).
\<close>

definition param :: "jsstring list \<Rightarrow> nat \<Rightarrow> jsstring option" where
  "param parameters i = (if i < length parameters then Some (parameters ! i) else None)"

definition parseInt_param :: "jsstring option \<Rightarrow> jsnum" where
  "parseInt_param v = (case v of None \<Rightarrow> NaN | Some s \<Rightarrow> parseInt s)"

text \<open>
  The decimal text of a non-negative integer, as \<open>length + "."\<close> produces it
  (a string length is far below \<open>10 ^ 21\<close>, from where the engine writes an exponent).
\<close>

definition digit :: "nat \<Rightarrow> 16 word" where
  "digit d = 0x30 + of_nat d"

fun decimal :: "nat \<Rightarrow> jsstring" where
  "decimal n = (if n < 10 then [digit n] else decimal (n div 10) @ [digit (n mod 10)])"

declare decimal.simps [simp del]

section \<open>Status\<close>

record Status =
  code :: jsnum
  message :: "jsstring option"

definition SUCCESS :: int where "SUCCESS = 0x0000"
definition UNSUPPORTED :: int where "UNSUPPORTED = 0x0100"
definition SERVER_ERROR :: int where "SERVER_ERROR = 0x0200"
definition UPSTREAM_TIMEOUT :: int where "UPSTREAM_TIMEOUT = 0x0202"
definition RESOURCE_NOT_FOUND :: int where "RESOURCE_NOT_FOUND = 0x0204"

text \<open>\<open>Status.isError\<close>: \<open>code < 0 || code > 0x00FF\<close>.\<close>

definition isError :: "Status \<Rightarrow> bool" where
  "isError s = (js_lt (code s) (Num 0) \<or> js_gt (code s) (Num 0x00FF))"

section \<open>Tunnel states\<close>

datatype Tunnel_State = CONNECTING | OPEN | CLOSED

section \<open>Module scope: the identifier \<open>Status\<close>\<close>

text \<open>
  A free identifier of a module is resolved in the module's scope; when nothing
  declares it, evaluating it throws a \<open>ReferenceError\<close>.  The WebSocketTunnel module
  imports both \<open>Tunnel\<close> and \<open>Status\<close>.  The HTTPTunnel module and the ChainedTunnel
  module have the single import \<open>import Tunnel from './Tunnel.js'\<close> and declare no
  \<open>Status\<close>, yet say \<open>Status.Code\<close> and \<open>new Status\<close>; in the bundle the constructor is
  declared as \<open>Status$1\<close> and the two tunnels still say \<open>Status\<close>.  The functions of
  these two modules take as their first argument whether \<open>Status\<close> is bound in their
  scope; in the modules as they are it is not.
\<close>

datatype js_error = ReferenceError string

definition HTTPTunnel_Status_bound :: bool where
  "HTTPTunnel_Status_bound = False"

definition ChainedTunnel_Status_bound :: bool where
  "ChainedTunnel_Status_bound = False"

section \<open>HTTP tunnel: \<open>close_tunnel\<close> and its callers\<close>

text \<open>
  The part of an \<open>HTTPTunnel\<close> that \<open>close_tunnel\<close> reads and writes: the state, whether
  the \<open>onerror\<close> and \<open>onstatechange\<close> slots hold a handler, the \<open>sendingMessages\<close> flag, and
  the handler invocations made so far, in order.  Handlers are opaque: an invocation is
  recorded and the handler is taken not to call back into the tunnel.  A function
  returns the tunnel as it leaves it, and the error it throws, if any.
\<close>

datatype tunnel_call = OnError Status | OnStateChange Tunnel_State

record http_tunnel =
  ht_state :: Tunnel_State
  ht_onerror :: bool
  ht_onstatechange :: bool
  ht_sendingMessages :: bool
  ht_calls :: "tunnel_call list"

text \<open>
  \<open>close_tunnel(status)\<close>.  After the test for CLOSED the first thing evaluated is
  \<open>status.code !== Status.Code.SUCCESS\<close>, which throws when \<open>Status\<close> is not bound.
\<close>

definition close_tunnel :: "bool \<Rightarrow> Status \<Rightarrow> http_tunnel \<Rightarrow> http_tunnel \<times> js_error option" where
  "close_tunnel Status_bound status t =
     (if ht_state t = CLOSED then (t, None)
      else if \<not> Status_bound then (t, Some (ReferenceError ''Status''))
      else
        let t1 = (if \<not> js_eq (code status) (Num SUCCESS) \<and> ht_onerror t
                  then (if ht_state t = CONNECTING
                           \<or> \<not> js_eq (code status) (Num RESOURCE_NOT_FOUND)
                        then t\<lparr>ht_calls := ht_calls t @ [OnError status]\<rparr>
                        else t)
                  else t);
            t2 = t1\<lparr>ht_state := CLOSED\<rparr>;
            t3 = t2\<lparr>ht_sendingMessages := False\<rparr>
        in (if ht_onstatechange t3
            then t3\<lparr>ht_calls := ht_calls t3 @ [OnStateChange (ht_state t3)]\<rparr>
            else t3, None))"

text \<open>
  The callers of \<open>close_tunnel\<close>.  Each builds its argument with \<open>new Status(...)\<close>, which
  is evaluated before the call and throws when \<open>Status\<close> is not bound.
  \<open>handleHTTPTunnelError\<close> reads the code and the message from the response headers
  \<open>Guacamole-Status-Code\<close> and \<open>Guacamole-Error-Message\<close> (absent headers are \<open>null\<close>);
  the callback of the receive timeout closes with UPSTREAM_TIMEOUT; \<open>disconnect\<close> closes
  with SUCCESS.
\<close>

definition handleHTTPTunnelError ::
    "bool \<Rightarrow> jsstring option \<Rightarrow> jsstring option \<Rightarrow> http_tunnel \<Rightarrow> http_tunnel \<times> js_error option" where
  "handleHTTPTunnelError Status_bound status_code_header error_message_header t =
     (let status_code = parseInt_param status_code_header;
          error_message = error_message_header
      in if \<not> Status_bound then (t, Some (ReferenceError ''Status''))
         else close_tunnel Status_bound \<lparr>code = status_code, message = error_message\<rparr> t)"

definition receive_timeout_fired :: "bool \<Rightarrow> http_tunnel \<Rightarrow> http_tunnel \<times> js_error option" where
  "receive_timeout_fired Status_bound t =
     (if \<not> Status_bound then (t, Some (ReferenceError ''Status''))
      else close_tunnel Status_bound
             \<lparr>code = Num UPSTREAM_TIMEOUT, message = Some (js ''Server timeout.'')\<rparr> t)"

definition disconnect :: "bool \<Rightarrow> http_tunnel \<Rightarrow> http_tunnel \<times> js_error option" where
  "disconnect Status_bound t =
     (if \<not> Status_bound then (t, Some (ReferenceError ''Status''))
      else close_tunnel Status_bound
             \<lparr>code = Num SUCCESS, message = Some (js ''Manually closed.'')\<rparr> t)"

section \<open>Tunnels: framing of outbound instructions\<close>

text \<open>
  \<open>getElement\<close>, the same function in \<open>WebSocketTunnel.sendMessage\<close> and in
  \<open>HTTPTunnel.sendMessage\<close>: \<open>string.length + "." + string\<close>.
\<close>

definition getElement :: "jsstring \<Rightarrow> jsstring" where
  "getElement string = decimal (length string) @ js ''.'' @ string"

text \<open>The loop over \<open>arguments[1..]\<close>: \<open>message += "," + getElement(arguments[i])\<close>.\<close>

fun append_elements :: "jsstring \<Rightarrow> jsstring list \<Rightarrow> jsstring" where
  "append_elements msg [] = msg"
| "append_elements msg (a # as) = append_elements (msg @ js '','' @ getElement a) as"

text \<open>
  \<open>sendMessage\<close> returns the text handed to the transport (\<open>socket.send\<close>, or the
  output buffer of the HTTP tunnel), or \<open>None\<close> when nothing is sent: the tunnel is
  not OPEN, or there are no arguments.
\<close>

definition sendMessage :: "Tunnel_State \<Rightarrow> jsstring list \<Rightarrow> jsstring option" where
  "sendMessage state arguments =
     (if state \<noteq> OPEN then None
      else (case arguments of
              [] \<Rightarrow> None
            | first # others \<Rightarrow> Some (append_elements (getElement first) others @ js '';'')))"

section \<open>Parser\<close>

text \<open>
  The private variables of a \<open>Parser\<close>, and whether \<open>oninstruction\<close> holds a handler
  (it is \<open>null\<close> in a new parser).  An instruction handed to the handler is an opcode
  with its elements.
\<close>

record Parser =
  buffer :: jsstring
  element_buffer :: "jsstring list"
  element_end :: jsnum
  start_index :: jsnum
  oninstruction :: bool

type_synonym instruction = "jsstring \<times> jsstring list"

definition new_Parser :: Parser where
  "new_Parser = \<lparr>buffer = [], element_buffer = [], element_end = Num (- 1),
                  start_index = Num 0, oninstruction = False\<rparr>"

text \<open>A new parser whose owner has stored a handler in \<open>oninstruction\<close>.\<close>

definition listening_Parser :: Parser where
  "listening_Parser = new_Parser\<lparr>oninstruction := True\<rparr>"

text \<open>
  The first block of the loop body, \<open>if (element_end >= start_index) { ... }\<close>: the
  result is the error thrown, or the parser with the instructions handed out.  The
  element has just been pushed when \<open>shift\<close> runs, so the element buffer is not empty there.
\<close>

definition take_element :: "Parser \<Rightarrow> (Parser \<times> string) + (Parser \<times> instruction list)" where
  "take_element p =
     (if js_ge (element_end p) (start_index p) then
        let element = substring (buffer p) (start_index p) (element_end p);
            terminator = substring (buffer p) (element_end p) (js_add (element_end p) (Num 1));
            p1 = p\<lparr>element_buffer := element_buffer p @ [element]\<rparr>
        in if terminator = js '';'' then
             let opcode = hd (element_buffer p1);
                 shifted = tl (element_buffer p1);
                 emitted = (if oninstruction p1 then [(opcode, shifted)] else []);
                 p2 = p1\<lparr>element_buffer := []\<rparr>
             in Inr (p2\<lparr>start_index := js_add (element_end p2) (Num 1)\<rparr>, emitted)
           else if terminator \<noteq> js '','' then Inl (p1, ''Illegal terminator.'')
           else Inr (p1\<lparr>start_index := js_add (element_end p1) (Num 1)\<rparr>, [])
      else Inr (p, []))"

text \<open>
  The second block, from \<open>buffer.indexOf(".", start_index)\<close> on: the parser after it and
  whether the loop goes on (\<open>True\<close>) or leaves through \<open>break\<close> (\<open>False\<close>), or the
  error thrown.  The test \<open>length == NaN\<close> is kept as the source has it.
\<close>

definition read_length :: "Parser \<Rightarrow> (Parser \<times> string) + (Parser \<times> bool)" where
  "read_length p =
     (let length_end = indexOf (buffer p) 0x2E (start_index p)
      in if length_end \<noteq> - 1 then
           let len = parseInt (substring (buffer p) (js_add (element_end p) (Num 1)) (Num length_end))
           in if js_eq len NaN
              then Inl (p, ''Non-numeric character in element length.'')
              else
                let p1 = p\<lparr>start_index := Num (length_end + 1)\<rparr>
                in Inr (p1\<lparr>element_end := js_add (start_index p1) len\<rparr>, True)
         else Inr (p\<lparr>start_index := Num (int (length (buffer p)))\<rparr>, False))"

text \<open>One pass through the loop body.\<close>

definition loop_body :: "Parser \<Rightarrow> (Parser \<times> instruction list \<times> string) + (Parser \<times> instruction list \<times> bool)" where
  "loop_body p =
     (case take_element p of
        Inl (p1, err) \<Rightarrow> Inl (p1, [], err)
      | Inr (p1, emitted) \<Rightarrow>
          (case read_length p1 of
             Inl (p2, err) \<Rightarrow> Inl (p2, emitted, err)
           | Inr (p2, continue) \<Rightarrow> Inr (p2, emitted, continue)))"

text \<open>How far the search position is from the end of the buffer: what the loop consumes.\<close>

definition distance_to_end :: "Parser \<Rightarrow> nat" where
  "distance_to_end p =
     (case start_index p of
        NaN \<Rightarrow> Suc (length (buffer p))
      | Num i \<Rightarrow> (if i < 0 then Suc (length (buffer p)) else length (buffer p) - nat i))"

text \<open>The loop ends: every pass that goes on moves the search position towards the end.\<close>

lemma first_index_less: "first_index c xs = Some k \<Longrightarrow> k < length xs"
  by (induction xs arbitrary: k) (auto split: if_splits option.splits)

lemma indexOf_bounds:
  "indexOf s c pos \<noteq> - 1 \<Longrightarrow>
     int (clamp_index pos (length s)) \<le> indexOf s c pos \<and> indexOf s c pos < int (length s)"
  by (auto simp: indexOf_def Let_def split: option.splits dest!: first_index_less)

lemma take_element_buffer:
  "take_element p = Inr (p1, em) \<Longrightarrow> buffer p1 = buffer p"
  by (auto simp: take_element_def Let_def split: if_splits)

lemma take_element_start:
  "take_element p = Inr (p1, em) \<Longrightarrow>
     start_index p1 = (if js_ge (element_end p) (start_index p)
                       then js_add (element_end p) (Num 1) else start_index p)"
  by (auto simp: take_element_def Let_def split: if_splits)

lemma read_length_continue:
  "read_length p = Inr (p1, True) \<Longrightarrow>
     buffer p1 = buffer p \<and>
     (\<exists>le. start_index p1 = Num (le + 1) \<and> le < int (length (buffer p))
           \<and> int (clamp_index (start_index p) (length (buffer p))) \<le> le)"
  using indexOf_bounds [of "buffer p" "0x2E" "start_index p"]
  by (auto simp: read_length_def Let_def split: if_splits)

lemma loop_body_decreases:
  assumes "js_lt (element_end p) (Num (int (length (buffer p))))"
    and "loop_body p = Inr (p1, emitted, True)"
  shows "distance_to_end p1 < distance_to_end p"
proof -
  from assms(2) obtain q where q: "take_element p = Inr (q, emitted)" and r: "read_length q = Inr (p1, True)"
    by (auto simp: loop_body_def split: sum.splits prod.splits)
  from take_element_buffer [OF q] have b: "buffer q = buffer p" .
  from read_length_continue [OF r] obtain le where
    le: "start_index p1 = Num (le + 1)" "le < int (length (buffer p))"
        "int (clamp_index (start_index q) (length (buffer p))) \<le> le" and b1: "buffer p1 = buffer p"
    by (auto simp: b)
  show ?thesis
  proof (cases "js_ge (element_end p) (start_index p)")
    case True
    then obtain e i where ei: "element_end p = Num e" "start_index p = Num i" "i \<le> e"
      by (cases "element_end p"; cases "start_index p") auto
    with assms(1) have "e < int (length (buffer p))" by simp
    moreover from take_element_start [OF q] True ei have "start_index q = Num (e + 1)" by simp
    ultimately show ?thesis using le ei b1
      by (auto simp: distance_to_end_def clamp_index_def split: if_splits)
  next
    case False
    with take_element_start [OF q] have "start_index q = start_index p" by simp
    then show ?thesis using le b1
      by (cases "start_index p") (auto simp: distance_to_end_def clamp_index_def split: if_splits)
  qed
qed

text \<open>
  The loop \<open>while (element_end < buffer.length)\<close>, with the instructions handed to
  the handler so far; the third component is the error thrown, if any.
\<close>

function parse_loop :: "Parser \<Rightarrow> instruction list \<Rightarrow> Parser \<times> instruction list \<times> string option" where
  "parse_loop p out =
     (if js_lt (element_end p) (Num (int (length (buffer p)))) then
        (case loop_body p of
           Inl (p1, emitted, err) \<Rightarrow> (p1, out @ emitted, Some err)
         | Inr (p1, emitted, continue) \<Rightarrow>
             (if continue then parse_loop p1 (out @ emitted) else (p1, out @ emitted, None)))
      else (p, out, None))"
  by pat_completeness auto
termination
  by (relation "measure (\<lambda>(p, out). distance_to_end p)") (auto dest: loop_body_decreases)

declare parse_loop.simps [simp del]

text \<open>\<open>Parser.receive(packet)\<close>.\<close>

definition receive :: "jsstring \<Rightarrow> Parser \<Rightarrow> Parser \<times> instruction list \<times> string option" where
  "receive packet p =
     (let p1 = (if js_gt (start_index p) (Num 4096) \<and> js_ge (element_end p) (start_index p)
                then p\<lparr>buffer := substring_from (buffer p) (start_index p),
                       element_end := js_sub (element_end p) (start_index p),
                       start_index := Num 0\<rparr>
                else p);
          p2 = p1\<lparr>buffer := buffer p1 @ packet\<rparr>
      in parse_loop p2 [])"

section \<open>Client: the stream handlers \<open>ack\<close>, \<open>blob\<close> and \<open>end\<close>\<close>

text \<open>
  The tables \<open>streams\<close> and \<open>output_streams\<close> are JavaScript arrays read and written
  at whatever number \<open>parseInt\<close> returned, \<open>NaN\<close> included, so they are maps from
  numbers.  A stream is modelled by which of its handler slots are filled; an invocation
  of a stream handler is recorded with the table index of the stream.
\<close>

record InputStream =
  onblob :: bool
  onend :: bool

record OutputStream =
  onack :: bool

record IntegerPool =
  pool :: "jsnum list"
  next_int :: int

text \<open>\<open>IntegerPool.free(integer)\<close>: \<open>pool.push(integer)\<close>.\<close>

definition free :: "jsnum \<Rightarrow> IntegerPool \<Rightarrow> IntegerPool" where
  "free integer ip = ip\<lparr>pool := pool ip @ [integer]\<rparr>"

datatype stream_call =
    Call_onack jsnum Status
  | Call_onblob jsnum "jsstring option"
  | Call_onend jsnum

record Client =
  streams :: "jsnum \<rightharpoonup> InputStream"
  output_streams :: "jsnum \<rightharpoonup> OutputStream"
  stream_indices :: IntegerPool
  stream_calls :: "stream_call list"

definition handle_ack :: "jsstring list \<Rightarrow> Client \<Rightarrow> Client" where
  "handle_ack parameters c =
     (let stream_index = parseInt_param (param parameters 0);
          reason = param parameters 1;
          ack_code = parseInt_param (param parameters 2)
      in (case output_streams c stream_index of
            None \<Rightarrow> c
          | Some stream \<Rightarrow>
              let c1 = (if onack stream
                        then c\<lparr>stream_calls := stream_calls c
                                  @ [Call_onack stream_index \<lparr>code = ack_code, message = reason\<rparr>]\<rparr>
                        else c)
              in if js_ge ack_code (Num 0x0100)
                 then c1\<lparr>stream_indices := free stream_index (stream_indices c1),
                         output_streams := (output_streams c1)(stream_index := None)\<rparr>
                 else c1))"

definition handle_blob :: "jsstring list \<Rightarrow> Client \<Rightarrow> Client" where
  "handle_blob parameters c =
     (let stream_index = parseInt_param (param parameters 0);
          data = param parameters 1
      in (case streams c stream_index of
            None \<Rightarrow> c
          | Some stream \<Rightarrow>
              if onblob stream
              then c\<lparr>stream_calls := stream_calls c @ [Call_onblob stream_index data]\<rparr>
              else c))"

definition handle_end :: "jsstring list \<Rightarrow> Client \<Rightarrow> Client" where
  "handle_end parameters c =
     (let stream_index = parseInt_param (param parameters 0)
      in (case streams c stream_index of
            None \<Rightarrow> c
          | Some stream \<Rightarrow>
              let c1 = (if onend stream
                        then c\<lparr>stream_calls := stream_calls c @ [Call_onend stream_index]\<rparr>
                        else c)
              in c1\<lparr>streams := (streams c1)(stream_index := None)\<rparr>))"

section \<open>ArrayBufferWriter\<close>

text \<open>\<open>bytes.subarray(begin, end)\<close> for non-negative positions: both clamped to the length.\<close>

definition subarray :: "8 word list \<Rightarrow> nat \<Rightarrow> nat \<Rightarrow> 8 word list" where
  "subarray bytes begin end =
     (let b = min begin (length bytes); e = min end (length bytes)
      in take (e - b) (drop b bytes))"

text \<open>
  \<open>__send_blob(bytes)\<close> sends one blob instruction whose data is the base64 text of
  \<open>bytes\<close>; a blob is recorded by its binary content.  The loop of \<open>sendData\<close>:
  \<open>for (offset = 0; offset < bytes.length; offset += 8064)\<close>.
\<close>

function sendData_loop :: "8 word list \<Rightarrow> nat \<Rightarrow> 8 word list list \<Rightarrow> 8 word list list" where
  "sendData_loop bytes offset sent =
     (if offset < length bytes
      then sendData_loop bytes (offset + 8064) (sent @ [subarray bytes offset (offset + 8094)])
      else sent)"
  by pat_completeness auto
termination
  by (relation "measure (\<lambda>(bytes, offset, sent). length bytes - offset)") auto

declare sendData_loop.simps [simp del]

definition sendData :: "8 word list \<Rightarrow> 8 word list list" where
  "sendData bytes =
     (if length bytes \<le> 8064 then [bytes] else sendData_loop bytes 0 [])"

section \<open>StringReader: the streaming UTF-8 decoder\<close>

text \<open>
  The decoder state kept between calls.  The bitwise operators of JavaScript work on
  32-bit integers; \<open>String.fromCharCode\<close> keeps the low 16 bits of its argument.
\<close>

record StringReader =
  bytes_remaining :: int
  codepoint :: "32 word"

definition fromCharCode :: "32 word \<Rightarrow> 16 word" where
  "fromCharCode n = ucast n"

definition decode_byte :: "8 word \<Rightarrow> StringReader \<times> jsstring \<Rightarrow> StringReader \<times> jsstring" where
  "decode_byte b = (\<lambda>(r, text).
     let v = (ucast b :: 32 word) in
     if bytes_remaining r = 0 then
       if v OR 0x7F = 0x7F then (r, text @ [fromCharCode v])
       else if v OR 0x1F = 0xDF then
         (r\<lparr>codepoint := v AND 0x1F, bytes_remaining := 1\<rparr>, text)
       else if v OR 0x0F = 0xEF then
         (r\<lparr>codepoint := v AND 0x0F, bytes_remaining := 2\<rparr>, text)
       else if v OR 0x07 = 0xF7 then
         (r\<lparr>codepoint := v AND 0x07, bytes_remaining := 3\<rparr>, text)
       else (r, text @ [0xFFFD])
     else if v OR 0x3F = 0xBF then
       let r1 = r\<lparr>codepoint := push_bit 6 (codepoint r) OR (v AND 0x3F)\<rparr>;
           r2 = r1\<lparr>bytes_remaining := bytes_remaining r1 - 1\<rparr>
       in if bytes_remaining r2 = 0
          then (r2, text @ [fromCharCode (codepoint r2)])
          else (r2, text)
     else (r\<lparr>bytes_remaining := 0\<rparr>, text @ [0xFFFD]))"

text \<open>\<open>__decode_utf8(buffer)\<close>: the text starts empty at every call, the state does not.\<close>

definition decode_utf8 :: "8 word list \<Rightarrow> StringReader \<Rightarrow> StringReader \<times> jsstring" where
  "decode_utf8 bytes r = fold decode_byte bytes (r, [])"

definition new_StringReader :: StringReader where
  "new_StringReader = \<lparr>bytes_remaining = 0, codepoint = 0\<rparr>"

text \<open>Feeding the reader one buffer after the other; the texts handed to \<open>ontext\<close>, in order.\<close>

fun decode_chunks :: "8 word list list \<Rightarrow> StringReader \<Rightarrow> StringReader \<times> jsstring list" where
  "decode_chunks [] r = (r, [])"
| "decode_chunks (chunk # chunks) r =
     (let (r1, text) = decode_utf8 chunk r;
          (r2, texts) = decode_chunks chunks r1
      in (r2, text # texts))"

section \<open>Display: tasks and frames\<close>

text \<open>
  A \<open>Task\<close> object: whether it was given a handler, and its \<open>blocked\<close> flag.  Task
  objects are shared between the pending list, the frames and whoever holds them to
  unblock them, so they live in a heap and are referred to by address.  A \<open>Frame\<close>
  holds its callback, if any, and its array of tasks.  Handlers and callbacks are
  opaque and taken not to call back into the display; running one is recorded.
\<close>

record Task =
  taskHandler :: bool
  blocked :: bool

record Frame =
  callback :: "nat option"
  frame_tasks :: "nat list"

datatype display_call = Run_handler nat | Run_callback nat

record Display =
  task_heap :: "nat \<Rightarrow> Task"
  next_task :: nat
  tasks :: "nat list"
  frames :: "Frame list"
  display_calls :: "display_call list"


text \<open>\<open>Frame.isReady\<close>: the loop returns false at the first blocked task.\<close>

fun isReady_loop :: "(nat \<Rightarrow> Task) \<Rightarrow> nat list \<Rightarrow> bool" where
  "isReady_loop heap [] = True"
| "isReady_loop heap (t # ts) = (if blocked (heap t) then False else isReady_loop heap ts)"

definition isReady :: "Display \<Rightarrow> Frame \<Rightarrow> bool" where
  "isReady d frame = isReady_loop (task_heap d) (frame_tasks frame)"



















section \<open>ChainedTunnel\<close>

text \<open>
  The inner tunnels are objects, referred to by address.  The three callback slots of
  an inner tunnel (\<open>onerror\<close>, \<open>oninstruction\<close>, \<open>onstatechange\<close>) are only ever
  assigned together: \<open>attach\<close> stores its three wrappers, \<open>commit_tunnel\<close> stores the
  chained tunnel's own handlers, \<open>failTunnel\<close> stores \<open>null\<close>; a new tunnel has \<open>null\<close>
  in all three.  The calls going out of the chained tunnel are recorded: \<open>connect\<close> on
  an inner tunnel, and the chained tunnel's own handlers, which are opaque.  A function
  returns the chained tunnel as it leaves it, and the error it throws, if any.
\<close>

datatype slots = Null | Wrappers | Forwarding

datatype chain_call =
    Inner_connect nat "jsstring option"
  | Chain_onerror Status
  | Chain_onerror_code int
  | Chain_onstatechange Tunnel_State
  | Chain_oninstruction jsstring "jsstring list"

record ChainedTunnel =
  tunnels :: "nat list"
  committedTunnel :: "nat option"
  connect_data :: "jsstring option"
  attached :: "nat option"
  inner_slots :: "nat \<Rightarrow> slots"
  ct_onerror :: bool
  ct_onstatechange :: bool
  ct_oninstruction :: bool
  chain_calls :: "chain_call list"

definition new_ChainedTunnel :: "nat list \<Rightarrow> ChainedTunnel" where
  "new_ChainedTunnel tunnelChain =
     \<lparr>tunnels = tunnelChain, committedTunnel = None, connect_data = None, attached = None,
      inner_slots = (\<lambda>_. Null), ct_onerror = False, ct_onstatechange = False,
      ct_oninstruction = False, chain_calls = []\<rparr>"

text \<open>A new chained tunnel whose owner has stored handlers in its three slots.\<close>

definition listening_ChainedTunnel :: "nat list \<Rightarrow> ChainedTunnel" where
  "listening_ChainedTunnel tunnelChain =
     (new_ChainedTunnel tunnelChain)
       \<lparr>ct_onerror := True, ct_onstatechange := True, ct_oninstruction := True\<rparr>"

text \<open>
  \<open>attach(tunnel)\<close>: take over \<open>disconnect\<close> and \<open>sendMessage\<close>, install the wrappers,
  and call \<open>tunnel.connect(connect_data)\<close>.
\<close>

definition attach :: "nat \<Rightarrow> ChainedTunnel \<Rightarrow> ChainedTunnel" where
  "attach tunnel c =
     (let c1 = c\<lparr>attached := Some tunnel\<rparr>;
          c2 = c1\<lparr>inner_slots := (inner_slots c1)(tunnel := Wrappers)\<rparr>
      in c2\<lparr>chain_calls := chain_calls c2 @ [Inner_connect tunnel (connect_data c2)]\<rparr>)"

text \<open>
  \<open>failTunnel(status)\<close> of the wrappers of \<open>tunnel\<close>; the status is absent when the
  call comes from the \<open>onstatechange\<close> wrapper.  The test is
  \<open>status && status.code === Status.Code.UPSTREAM_TIMEOUT\<close>: with no status the right
  operand is not evaluated; with a status it is, and it throws when \<open>Status\<close> is not
  bound, before anything is changed.  The result is the error thrown, or the next
  tunnel, if any, with the chained tunnel.
\<close>

definition failTunnel ::
    "bool \<Rightarrow> nat \<Rightarrow> Status option \<Rightarrow> ChainedTunnel \<Rightarrow> js_error + (nat option \<times> ChainedTunnel)" where
  "failTunnel Status_bound tunnel status c =
     (if status \<noteq> None \<and> \<not> Status_bound then Inl (ReferenceError ''Status'')
      else if (case status of None \<Rightarrow> False | Some s \<Rightarrow> js_eq (code s) (Num UPSTREAM_TIMEOUT))
      then Inr (None, c\<lparr>tunnels := []\<rparr>)
      else (case tunnels c of
              [] \<Rightarrow> Inr (None, c)
            | next_tunnel # rest \<Rightarrow>
                Inr (Some next_tunnel,
                     attach next_tunnel
                       (c\<lparr>tunnels := rest, inner_slots := (inner_slots c)(tunnel := Null)\<rparr>))))"

definition commit_tunnel :: "nat \<Rightarrow> ChainedTunnel \<Rightarrow> ChainedTunnel" where
  "commit_tunnel tunnel c =
     c\<lparr>inner_slots := (inner_slots c)(tunnel := Forwarding), committedTunnel := Some tunnel\<rparr>"

text \<open>
  What happens when the inner tunnel \<open>tunnel\<close> calls the handler in its
  \<open>onstatechange\<close>, \<open>oninstruction\<close> or \<open>onerror\<close> slot (an inner tunnel calls a slot
  only if it is not \<open>null\<close>).  An error thrown by \<open>failTunnel\<close> leaves the wrapper
  and goes to the inner tunnel that called it.
\<close>

definition tunnel_onstatechange ::
    "bool \<Rightarrow> nat \<Rightarrow> Tunnel_State \<Rightarrow> ChainedTunnel \<Rightarrow> ChainedTunnel \<times> js_error option" where
  "tunnel_onstatechange Status_bound tunnel state c =
     (case inner_slots c tunnel of
        Null \<Rightarrow> (c, None)
      | Forwarding \<Rightarrow>
          (if ct_onstatechange c
           then c\<lparr>chain_calls := chain_calls c @ [Chain_onstatechange state]\<rparr> else c, None)
      | Wrappers \<Rightarrow>
          (case state of
             OPEN \<Rightarrow>
               let c1 = commit_tunnel tunnel c
               in (if ct_onstatechange c1
                   then c1\<lparr>chain_calls := chain_calls c1 @ [Chain_onstatechange state]\<rparr> else c1,
                   None)
           | CLOSED \<Rightarrow>
               (case failTunnel Status_bound tunnel None c of
                  Inl err \<Rightarrow> (c, Some err)
                | Inr (next_tunnel, c1) \<Rightarrow>
                    (if next_tunnel = None \<and> ct_onstatechange c1
                     then c1\<lparr>chain_calls := chain_calls c1 @ [Chain_onstatechange state]\<rparr>
                     else c1, None))
           | CONNECTING \<Rightarrow> (c, None)))"

definition tunnel_oninstruction ::
    "nat \<Rightarrow> jsstring \<Rightarrow> jsstring list \<Rightarrow> ChainedTunnel \<Rightarrow> ChainedTunnel \<times> js_error option" where
  "tunnel_oninstruction tunnel opcode elements c =
     (case inner_slots c tunnel of
        Null \<Rightarrow> (c, None)
      | Forwarding \<Rightarrow>
          (if ct_oninstruction c
           then c\<lparr>chain_calls := chain_calls c @ [Chain_oninstruction opcode elements]\<rparr> else c,
           None)
      | Wrappers \<Rightarrow>
          let c1 = commit_tunnel tunnel c
          in (if ct_oninstruction c1
              then c1\<lparr>chain_calls := chain_calls c1 @ [Chain_oninstruction opcode elements]\<rparr>
              else c1, None))"

definition tunnel_onerror ::
    "bool \<Rightarrow> nat \<Rightarrow> Status \<Rightarrow> ChainedTunnel \<Rightarrow> ChainedTunnel \<times> js_error option" where
  "tunnel_onerror Status_bound tunnel status c =
     (case inner_slots c tunnel of
        Null \<Rightarrow> (c, None)
      | Forwarding \<Rightarrow>
          (if ct_onerror c then c\<lparr>chain_calls := chain_calls c @ [Chain_onerror status]\<rparr> else c,
           None)
      | Wrappers \<Rightarrow>
          (case failTunnel Status_bound tunnel (Some status) c of
             Inl err \<Rightarrow> (c, Some err)
           | Inr (next_tunnel, c1) \<Rightarrow>
               (if next_tunnel = None \<and> ct_onerror c1
                then c1\<lparr>chain_calls := chain_calls c1 @ [Chain_onerror status]\<rparr> else c1,
                None)))"

text \<open>
  \<open>ChainedTunnel.connect(data)\<close>.  With no tunnel to attach and a handler in
  \<open>onerror\<close>, the argument \<open>Status.Code.SERVER_ERROR\<close> of the call is evaluated, and
  throws when \<open>Status\<close> is not bound.
\<close>

definition connect :: "bool \<Rightarrow> jsstring \<Rightarrow> ChainedTunnel \<Rightarrow> ChainedTunnel \<times> js_error option" where
  "connect Status_bound data c =
     (let c1 = c\<lparr>connect_data := Some data\<rparr>
      in (case committedTunnel c1 of
            Some tunnel \<Rightarrow> (attach tunnel c1, None)
          | None \<Rightarrow>
              (case tunnels c1 of
                 next_tunnel # rest \<Rightarrow> (attach next_tunnel (c1\<lparr>tunnels := rest\<rparr>), None)
               | [] \<Rightarrow>
                   (if ct_onerror c1
                    then (if \<not> Status_bound then (c1, Some (ReferenceError ''Status''))
                          else (c1\<lparr>chain_calls := chain_calls c1 @ [Chain_onerror_code SERVER_ERROR]\<rparr>,
                                None))
                    else (c1, None)))))"

text \<open>
  Whatever can happen to a chained tunnel: its \<open>connect\<close> is called, or some inner
  tunnel calls one of its slots.  A run returns the chained tunnel at the end and the
  errors thrown on the way, in order.
\<close>

datatype chain_event =
    Ev_connect jsstring
  | Ev_onstatechange nat Tunnel_State
  | Ev_oninstruction nat jsstring "jsstring list"
  | Ev_onerror nat Status

fun chain_step :: "bool \<Rightarrow> chain_event \<Rightarrow> ChainedTunnel \<Rightarrow> ChainedTunnel \<times> js_error option" where
  "chain_step Status_bound (Ev_connect data) c = connect Status_bound data c"
| "chain_step Status_bound (Ev_onstatechange tunnel state) c =
     tunnel_onstatechange Status_bound tunnel state c"
| "chain_step Status_bound (Ev_oninstruction tunnel opcode elements) c =
     tunnel_oninstruction tunnel opcode elements c"
| "chain_step Status_bound (Ev_onerror tunnel status) c = tunnel_onerror Status_bound tunnel status c"

fun run_chain :: "bool \<Rightarrow> chain_event list \<Rightarrow> ChainedTunnel \<Rightarrow> ChainedTunnel \<times> js_error list" where
  "run_chain Status_bound [] c = (c, [])"
| "run_chain Status_bound (event # events) c =
     (let (c1, thrown) = chain_step Status_bound event c;
          (c2, errors) = run_chain Status_bound events c1
      in (c2, (case thrown of None \<Rightarrow> [] | Some err \<Rightarrow> [err]) @ errors))"

text \<open>
  The remaining tunnels have not been touched: their slots are \<open>null\<close> and none of
  them is the committed tunnel (so for a chain of distinct tunnels).
\<close>

definition untouched :: "nat set \<Rightarrow> ChainedTunnel \<Rightarrow> bool" where
  "untouched S c = (\<forall>u \<in> S. inner_slots c u = Null \<and> committedTunnel c \<noteq> Some u)"

text \<open>The calls \<open>connect\<close> made on inner tunnels among a list of calls.\<close>

fun connected :: "chain_call list \<Rightarrow> nat list" where
  "connected [] = []"
| "connected (Inner_connect tunnel data # calls) = tunnel # connected calls"
| "connected (_ # calls) = connected calls"

section \<open>The specification's length of an element\<close>

text \<open>
  Following the specification's words, ``the UTF-8 byte length of the element'': the
  number of bytes of the UTF-8 encoding of a string given by its UTF-16 code units.  A
  surrogate pair is one code point of four bytes; any other code unit takes one, two or
  three bytes by its value.
\<close>

definition spec_utf8_unit_length :: "16 word \<Rightarrow> nat" where
  "spec_utf8_unit_length c = (if c < 0x80 then 1 else if c < 0x800 then 2 else 3)"

fun spec_utf8_length :: "jsstring \<Rightarrow> nat" where
  "spec_utf8_length [] = 0"
| "spec_utf8_length [c] = spec_utf8_unit_length c"
| "spec_utf8_length (c # d # cs) =
     (if 0xD800 \<le> c \<and> c \<le> 0xDBFF \<and> 0xDC00 \<le> d \<and> d \<le> 0xDFFF
      then 4 + spec_utf8_length cs
      else spec_utf8_unit_length c + spec_utf8_length (d # cs))"

section \<open>The specification's UTF-8\<close>

text \<open>
  Following the specification's words, ``well-formed 1--4 byte UTF-8 sequence'' and
  ``decodes to its codepoint'': the UTF-8 encoding of a code point, and the
  JavaScript string that holds a code point (one code unit below U+10000, a surrogate
  pair from there on).
\<close>

definition spec_utf8_encode :: "nat \<Rightarrow> 8 word list" where
  "spec_utf8_encode cp =
     (if cp < 0x80 then [of_nat cp]
      else if cp < 0x800 then
        [of_nat (0xC0 + cp div 0x40), of_nat (0x80 + cp mod 0x40)]
      else if cp < 0x10000 then
        [of_nat (0xE0 + cp div 0x1000), of_nat (0x80 + cp div 0x40 mod 0x40),
         of_nat (0x80 + cp mod 0x40)]
      else
        [of_nat (0xF0 + cp div 0x40000), of_nat (0x80 + cp div 0x1000 mod 0x40),
         of_nat (0x80 + cp div 0x40 mod 0x40), of_nat (0x80 + cp mod 0x40)])"

definition spec_utf16 :: "nat \<Rightarrow> jsstring" where
  "spec_utf16 cp =
     (if cp < 0x10000 then [of_nat cp]
      else [of_nat (0xD800 + (cp - 0x10000) div 0x400),
            of_nat (0xDC00 + (cp - 0x10000) mod 0x400)])"

section \<open>Properties\<close>

subsection \<open>Evaluating the built-ins on literals\<close>

lemmas js_eval =
  js_def param_def parseInt_param_def parseInt_def isWhiteSpace_def isRadixDigit_def
  digitValue_def mathInt_def indexOf_def clamp_index_def substring_def Let_def

subsection \<open>HTTP tunnel: closing throws before any handler is called\<close>

text \<open>
  In the HTTPTunnel module \<open>Status\<close> is not bound.  Every caller of \<open>close_tunnel\<close>
  throws while it builds the status, and \<open>close_tunnel\<close> itself throws on a tunnel that
  is not CLOSED; the tunnel is left as it was.
\<close>

lemma close_tunnel_callers_throw:
  "handleHTTPTunnelError HTTPTunnel_Status_bound status_code_header error_message_header t
     = (t, Some (ReferenceError ''Status''))"
  "receive_timeout_fired HTTPTunnel_Status_bound t = (t, Some (ReferenceError ''Status''))"
  "disconnect HTTPTunnel_Status_bound t = (t, Some (ReferenceError ''Status''))"
  by (simp_all add: handleHTTPTunnelError_def receive_timeout_fired_def disconnect_def
                    HTTPTunnel_Status_bound_def Let_def)

lemma close_tunnel_throws:
  "ht_state t \<noteq> CLOSED \<Longrightarrow>
     close_tunnel HTTPTunnel_Status_bound status t = (t, Some (ReferenceError ''Status''))"
  by (simp add: close_tunnel_def HTTPTunnel_Status_bound_def)

text \<open>
  Were \<open>Status\<close> bound in the module, \<open>close_tunnel\<close> would do what its comments say.
  With handlers in both slots: closing with a status whose code is not SUCCESS while
  the tunnel is CONNECTING invokes \<open>onerror\<close> with that status (RESOURCE_NOT_FOUND
  included) and then \<open>onstatechange\<close> with CLOSED; closing with RESOURCE_NOT_FOUND while
  the tunnel is OPEN invokes only \<open>onstatechange\<close> with CLOSED.
\<close>

lemma close_tunnel_if_Status_bound:
  assumes "ht_onerror t" and "ht_onstatechange t"
  shows "(ht_state t = CONNECTING \<and> \<not> js_eq (code s) (Num SUCCESS) \<longrightarrow>
            close_tunnel True s t
              = (t\<lparr>ht_state := CLOSED, ht_sendingMessages := False,
                   ht_calls := ht_calls t @ [OnError s, OnStateChange CLOSED]\<rparr>, None))
       \<and> (ht_state t = OPEN \<and> code s = Num RESOURCE_NOT_FOUND \<longrightarrow>
            close_tunnel True s t
              = (t\<lparr>ht_state := CLOSED, ht_sendingMessages := False,
                   ht_calls := ht_calls t @ [OnStateChange CLOSED]\<rparr>, None))"
  using assms
  by (simp add: close_tunnel_def Let_def SUCCESS_def RESOURCE_NOT_FOUND_def)

text \<open>
  Claim C8.  The claim does not hold of the module as it is.  Take a tunnel that is
  CONNECTING, with handlers in \<open>onerror\<close> and \<open>onstatechange\<close>, whose connect request is
  answered with the header \<open>Guacamole-Status-Code: 516\<close> (RESOURCE_NOT_FOUND):
  \<open>handleHTTPTunnelError\<close> throws a \<open>ReferenceError\<close>, \<open>onerror\<close> is not invoked, the state
  stays CONNECTING and \<open>onstatechange\<close> is not invoked.  The same happens for a status
  code 512 (SERVER_ERROR), when the receive timeout fires, and when \<open>close_tunnel\<close> is
  entered with a status object: the tunnel stays CONNECTING and no handler is invoked.
  On a tunnel that is OPEN, the response code 516 and \<open>disconnect\<close> throw as well: the
  state stays OPEN and \<open>onstatechange\<close> is not invoked.
\<close>

theorem http_close_tunnel_throws_ReferenceError:
  "(let t = \<lparr>ht_state = CONNECTING, ht_onerror = True, ht_onstatechange = True,
             ht_sendingMessages = False, ht_calls = []\<rparr>;
        thrown = Some (ReferenceError ''Status'')
    in handleHTTPTunnelError HTTPTunnel_Status_bound
         (Some (js ''516'')) (Some (js ''Not found'')) t = (t, thrown)
       \<and> handleHTTPTunnelError HTTPTunnel_Status_bound
           (Some (js ''512'')) (Some (js ''Server error'')) t = (t, thrown)
       \<and> receive_timeout_fired HTTPTunnel_Status_bound t = (t, thrown)
       \<and> close_tunnel HTTPTunnel_Status_bound
           \<lparr>code = Num RESOURCE_NOT_FOUND, message = Some (js ''Not found'')\<rparr> t = (t, thrown)
       \<and> ht_state (fst (handleHTTPTunnelError HTTPTunnel_Status_bound
                          (Some (js ''516'')) (Some (js ''Not found'')) t)) = CONNECTING
       \<and> ht_calls (fst (handleHTTPTunnelError HTTPTunnel_Status_bound
                          (Some (js ''516'')) (Some (js ''Not found'')) t)) = [])
   \<and> (let t = \<lparr>ht_state = OPEN, ht_onerror = True, ht_onstatechange = True,
                ht_sendingMessages = True, ht_calls = [OnStateChange OPEN]\<rparr>;
           thrown = Some (ReferenceError ''Status'')
       in handleHTTPTunnelError HTTPTunnel_Status_bound
            (Some (js ''516'')) (Some (js ''Not found'')) t = (t, thrown)
          \<and> disconnect HTTPTunnel_Status_bound t = (t, thrown)
          \<and> close_tunnel HTTPTunnel_Status_bound
              \<lparr>code = Num RESOURCE_NOT_FOUND, message = Some (js ''Not found'')\<rparr> t = (t, thrown)
          \<and> ht_state (fst (handleHTTPTunnelError HTTPTunnel_Status_bound
                             (Some (js ''516'')) (Some (js ''Not found'')) t)) = OPEN
          \<and> ht_calls (fst (handleHTTPTunnelError HTTPTunnel_Status_bound
                             (Some (js ''516'')) (Some (js ''Not found'')) t)) = [OnStateChange OPEN])"
  by (simp add: handleHTTPTunnelError_def receive_timeout_fired_def disconnect_def
                close_tunnel_def HTTPTunnel_Status_bound_def Let_def)

subsection \<open>Framing round trip\<close>

text \<open>The decimal text of a number consists of digits, and \<open>parseInt\<close> reads it back.\<close>

lemma digit_cases: "d < 10 \<Longrightarrow> d = 0 \<or> d = 1 \<or> d = 2 \<or> d = 3 \<or> d = 4 \<or> d = 5 \<or> d = 6 \<or> d = 7 \<or> d = 8 \<or> d = (9::nat)"
  by arith

lemma digit_props:
  assumes "d < 10"
  shows "digitValue (digit d) = Some d" and "\<not> isWhiteSpace (digit d)"
    and "digit d \<noteq> 0x2D" and "digit d \<noteq> 0x2B" and "digit d \<noteq> 0x2E"
    and "digit d \<noteq> 0x78" and "digit d \<noteq> 0x58"
  using digit_cases [OF assms]
  by (auto simp: digit_def digitValue_def isWhiteSpace_def)

lemma decimal_digits: "c \<in> set (decimal n) \<Longrightarrow> \<exists>d<10. c = digit d"
proof (induction n arbitrary: c rule: decimal.induct)
  case (1 n)
  show ?case
  proof (cases "n < 10")
    case True
    with "1.prems" show ?thesis by (auto simp: decimal.simps [of n])
  next
    case False
    with "1.prems" have "c \<in> set (decimal (n div 10)) \<or> c = digit (n mod 10)"
      by (auto simp: decimal.simps [of n])
    then show ?thesis
    proof
      assume "c \<in> set (decimal (n div 10))"
      with "1.IH" False show ?thesis by blast
    next
      assume "c = digit (n mod 10)"
      moreover have "n mod 10 < 10" by simp
      ultimately show ?thesis by blast
    qed
  qed
qed

lemma decimal_not_Nil: "decimal n \<noteq> []"
  by (subst decimal.simps) simp

lemma decimal_no_dot: "0x2E \<notin> set (decimal n)"
  using decimal_digits digit_props(5) by metis

lemma mathInt_snoc:
  "mathInt R (Z @ [c]) = mathInt R Z * R + (case digitValue c of None \<Rightarrow> 0 | Some d \<Rightarrow> d)"
  by (simp add: mathInt_def)

lemma mathInt_decimal: "mathInt 10 (decimal n) = n"
proof (induction n rule: decimal.induct)
  case (1 n)
  show ?case
  proof (cases "n < 10")
    case True
    then show ?thesis
      by (simp add: decimal.simps [of n] mathInt_def digit_props(1))
  next
    case False
    have "n mod 10 < 10" by simp
    then have dv: "digitValue (digit (n mod 10)) = Some (n mod 10)" by (rule digit_props(1))
    from False "1.IH" have "mathInt 10 (decimal (n div 10)) = n div 10" by simp
    with False dv show ?thesis
      by (simp add: decimal.simps [of n] mathInt_snoc)
  qed
qed

lemma parseInt_digits:
  assumes "\<not> isWhiteSpace c" and "c \<noteq> 0x2D" and "c \<noteq> 0x2B"
    and "\<forall>x \<in> set (c # cs). isRadixDigit 10 x"
    and "\<forall>x \<in> set cs. x \<noteq> 0x78 \<and> x \<noteq> 0x58"
  shows "parseInt (c # cs) = Num (int (mathInt 10 (c # cs)))"
proof -
  have nohex: "\<not> (case c # cs of a # b # _ \<Rightarrow> a = 0x30 \<and> (b = 0x78 \<or> b = 0x58) | _ \<Rightarrow> False)"
    using assms(5) by (cases cs) auto
  have tw: "takeWhile (isRadixDigit 10) (c # cs) = c # cs"
    using assms(4) by (simp only: takeWhile_eq_all_conv) 
  have ws: "dropWhile isWhiteSpace (c # cs) = c # cs"
    using assms(1) by simp
  show ?thesis
    using assms(2,3) nohex
    by (simp add: parseInt_def Let_def tw ws del: takeWhile.simps dropWhile.simps)
qed

lemma parseInt_decimal: "parseInt (decimal n) = Num (int n)"
proof -
  obtain c cs where dc: "decimal n = c # cs"
    using decimal_not_Nil [of n] by (cases "decimal n") auto
  have all: "\<forall>x \<in> set (c # cs). \<exists>d<10. x = digit d"
    using decimal_digits [of _ n] by (simp add: dc)
  have "parseInt (c # cs) = Num (int (mathInt 10 (c # cs)))"
  proof (rule parseInt_digits)
    from all obtain d where d: "d < 10" "c = digit d" by auto
    then show "\<not> isWhiteSpace c" "c \<noteq> 0x2D" "c \<noteq> 0x2B"
      using digit_props(2,3,4) [of d] by simp_all
    show "\<forall>x \<in> set (c # cs). isRadixDigit 10 x"
      using all by (auto simp: isRadixDigit_def digit_props(1))
    show "\<forall>x \<in> set cs. x \<noteq> 0x78 \<and> x \<noteq> 0x58"
      using all digit_props(6,7) by auto
  qed
  then show ?thesis
    by (simp add: dc [symmetric] mathInt_decimal)
qed

text \<open>Positions in a buffer that is a concatenation.\<close>

lemma js_chars: "js '';'' = [0x3B]" "js '','' = [0x2C]" "js ''.'' = [0x2E]"
  by (simp_all add: js_def)

lemma clamp_index_Num: "clamp_index (Num (int k)) len = min k len"
  by (simp add: clamp_index_def)

lemma substring_mid:
  assumes "a = int (length xs)" and "b = int (length xs + length ys)"
  shows "substring (xs @ ys @ zs) (Num a) (Num b) = ys"
proof -
  have "clamp_index (Num a) (length (xs @ ys @ zs)) = length xs"
    by (simp add: clamp_index_def assms)
  moreover have "clamp_index (Num b) (length (xs @ ys @ zs)) = length xs + length ys"
    by (simp add: clamp_index_def assms)
  ultimately show ?thesis
    by (simp add: substring_def Let_def)
qed

lemma first_index_append:
  "c \<notin> set xs \<Longrightarrow> first_index c (xs @ c # ys) = Some (length xs)"
  by (induction xs) auto

lemma indexOf_after_prefix:
  "c \<notin> set ds \<Longrightarrow>
     indexOf (pre @ ds @ c # rest) c (Num (int (length pre))) = int (length pre + length ds)"
  by (simp add: indexOf_def clamp_index_def Let_def first_index_append)

lemma indexOf_at_end: "indexOf s c (Num (int (length s))) = - 1"
  by (simp add: indexOf_def clamp_index_def Let_def)

lemma append_elements_concat:
  "append_elements msg as = msg @ concat (map (\<lambda>a. js '','' @ getElement a) as)"
  by (induction as arbitrary: msg) auto

lemma loop_body_last:
  assumes "buffer p = pre @ e @ js '';''"
    and "start_index p = Num (int (length pre))"
    and "element_end p = Num (int (length pre + length e))"
    and "oninstruction p"
  shows "loop_body p =
           Inr (p\<lparr>element_buffer := [], start_index := Num (int (length (buffer p)))\<rparr>,
                [(hd (element_buffer p @ [e]), tl (element_buffer p @ [e]))], False)"
proof -
  have e: "substring (buffer p) (start_index p) (element_end p) = e"
    by (simp add: assms substring_mid)
  have "substring ((pre @ e) @ js '';'' @ []) (Num (int (length pre + length e)))
          (Num (int (length pre + length e) + 1)) = js '';''"
    by (rule substring_mid) (simp_all add: js_chars)
  then have t: "substring (buffer p) (element_end p) (js_add (element_end p) (Num 1)) = js '';''"
    by (simp add: assms)
  have te: "take_element p =
              Inr (p\<lparr>element_buffer := [], start_index := Num (int (length (buffer p)))\<rparr>,
                   [(hd (element_buffer p @ [e]), tl (element_buffer p @ [e]))])"
    unfolding take_element_def e t Let_def
    by (simp add: assms js_chars)
  have rl: "read_length (p\<lparr>element_buffer := [], start_index := Num (int (length (buffer p)))\<rparr>) =
              Inr (p\<lparr>element_buffer := [], start_index := Num (int (length (buffer p)))\<rparr>, False)"
    by (simp add: read_length_def indexOf_at_end Let_def)
  show ?thesis
    by (simp only: loop_body_def te sum.case prod.case rl)
qed

lemma loop_body_next:
  assumes "buffer p = pre @ e @ js '','' @ getElement a @ rest"
    and "start_index p = Num (int (length pre))"
    and "element_end p = Num (int (length pre + length e))"
  shows "loop_body p =
           Inr (p\<lparr>element_buffer := element_buffer p @ [e],
                  start_index := Num (int (length (pre @ e @ js '','' @ decimal (length a) @ js ''.''))),
                  element_end := Num (int (length (pre @ e @ js '','' @ decimal (length a) @ js ''.'') + length a))\<rparr>,
                [], True)"
proof -
  let ?q = "p\<lparr>element_buffer := element_buffer p @ [e],
               start_index := Num (int (length pre + length e) + 1)\<rparr>"
  have e: "substring (buffer p) (start_index p) (element_end p) = e"
    by (simp add: assms substring_mid)
  have "substring ((pre @ e) @ js '','' @ getElement a @ rest) (Num (int (length pre + length e)))
          (Num (int (length pre + length e) + 1)) = js '',''"
    by (rule substring_mid) (simp_all add: js_chars)
  then have t: "substring (buffer p) (element_end p) (js_add (element_end p) (Num 1)) = js '',''"
    by (simp add: assms)
  have te: "take_element p = Inr (?q, [])"
    unfolding take_element_def e t Let_def
    by (simp add: assms js_chars)
  have io: "indexOf (buffer ?q) 0x2E (start_index ?q)
             = int (length (pre @ e @ js '','') + length (decimal (length a)))"
    using indexOf_after_prefix [of "0x2E" "decimal (length a)" "pre @ e @ js '',''" "a @ rest"]
    by (simp add: assms getElement_def js_chars decimal_no_dot add.commute)
  have "substring ((pre @ e @ js '','') @ decimal (length a) @ js ''.'' @ a @ rest)
          (Num (int (length pre + length e) + 1))
          (Num (int (length (pre @ e @ js '','') + length (decimal (length a)))))
        = decimal (length a)"
    by (rule substring_mid) (simp_all add: js_chars)
  then have sub: "substring (buffer ?q) (js_add (element_end ?q) (Num 1))
               (Num (int (length (pre @ e @ js '','') + length (decimal (length a)))))
             = decimal (length a)"
    by (simp add: assms getElement_def)
  have rl: "read_length ?q =
              Inr (?q\<lparr>start_index := Num (int (length (pre @ e @ js '','' @ decimal (length a) @ js ''.''))),
                      element_end := Num (int (length (pre @ e @ js '','' @ decimal (length a) @ js ''.'') + length a))\<rparr>, True)"
    unfolding read_length_def io sub Let_def parseInt_decimal
    by (simp add: js_chars)
  show ?thesis
    by (simp only: loop_body_def te sum.case prod.case rl) simp
qed

text \<open>
  The loop from a state in which the body of an element has been located: the element
  and all elements after it are consumed, and one instruction is handed out.
\<close>

lemma parse_loop_pending:
  assumes "buffer p = pre @ e @ concat (map (\<lambda>a. js '','' @ getElement a) es) @ js '';''"
    and "start_index p = Num (int (length pre))"
    and "element_end p = Num (int (length pre + length e))"
    and "oninstruction p"
  shows "\<exists>p'. parse_loop p out =
           (p', out @ [(hd (element_buffer p @ e # es), tl (element_buffer p @ e # es))], None)"
  using assms
proof (induction es arbitrary: p pre e out)
  case Nil
  have cond: "js_lt (element_end p) (Num (int (length (buffer p))))"
    using Nil by (simp add: js_chars)
  have lb: "loop_body p =
           Inr (p\<lparr>element_buffer := [], start_index := Num (int (length (buffer p)))\<rparr>,
                [(hd (element_buffer p @ [e]), tl (element_buffer p @ [e]))], False)"
    by (rule loop_body_last [of p pre e]) (use Nil in simp_all)
  show ?case
    by (subst parse_loop.simps) (simp add: cond lb)
next
  case (Cons a es)
  let ?rest = "concat (map (\<lambda>a. js '','' @ getElement a) es) @ js '';''"
  let ?pre = "pre @ e @ js '','' @ decimal (length a) @ js ''.''"
  let ?p1 = "p\<lparr>element_buffer := element_buffer p @ [e],
                start_index := Num (int (length ?pre)),
                element_end := Num (int (length ?pre + length a))\<rparr>"
  have buf: "buffer p = pre @ e @ js '','' @ getElement a @ ?rest"
    using Cons.prems(1) by simp
  have cond: "js_lt (element_end p) (Num (int (length (buffer p))))"
    using Cons.prems(3) by (simp add: buf js_chars)
  have lb: "loop_body p = Inr (?p1, [], True)"
    by (rule loop_body_next [OF buf Cons.prems(2,3)])
  have step: "parse_loop p out = parse_loop ?p1 out"
    by (subst parse_loop.simps) (simp add: cond lb)
  have "\<exists>p'. parse_loop ?p1 out =
           (p', out @ [(hd (element_buffer ?p1 @ a # es), tl (element_buffer ?p1 @ a # es))], None)"
  proof (rule Cons.IH [of ?p1 ?pre a])
    show "buffer ?p1 = ?pre @ a @ ?rest"
      by (simp add: buf getElement_def)
    show "start_index ?p1 = Num (int (length ?pre))" by simp
    show "element_end ?p1 = Num (int (length ?pre + length a))" by simp
    show "oninstruction ?p1" using Cons.prems(4) by simp
  qed
  then show ?case
    by (simp add: step)
qed

text \<open>
  Claim C1.  For every opcode and every list of elements, the text that \<open>sendMessage\<close>
  of an OPEN tunnel hands to the transport, received by a new \<open>Parser\<close> with a
  handler, makes the parser hand out exactly one instruction, with that opcode and those
  elements, and throw nothing.
\<close>

theorem framing_round_trip:
  "\<exists>msg p'. sendMessage OPEN (opcode # elements) = Some msg
            \<and> receive msg listening_Parser = (p', [(opcode, elements)], None)"
proof -
  let ?rest = "concat (map (\<lambda>a. js '','' @ getElement a) elements) @ js '';''"
  let ?msg = "getElement opcode @ ?rest"
  let ?dec = "decimal (length opcode)"
  let ?p0 = "listening_Parser\<lparr>buffer := ?msg\<rparr>"
  let ?p1 = "?p0\<lparr>start_index := Num (int (length (?dec @ js ''.''))),
                 element_end := Num (int (length (?dec @ js ''.'') + length opcode))\<rparr>"
  have sent: "sendMessage OPEN (opcode # elements) = Some ?msg"
    by (simp add: sendMessage_def append_elements_concat)
  have te: "take_element ?p0 = Inr (?p0, [])"
    by (simp add: take_element_def listening_Parser_def new_Parser_def)
  have io: "indexOf (buffer ?p0) 0x2E (start_index ?p0) = int (length ?dec)"
    using indexOf_after_prefix [of "0x2E" ?dec "[]" "opcode @ ?rest"]
    by (simp add: listening_Parser_def new_Parser_def getElement_def js_chars decimal_no_dot)
  have "substring ([] @ ?dec @ js ''.'' @ opcode @ ?rest) (Num 0) (Num (int (length ?dec))) = ?dec"
    by (rule substring_mid) simp_all
  then have sub: "substring (buffer ?p0) (js_add (element_end ?p0) (Num 1)) (Num (int (length ?dec))) = ?dec"
    by (simp add: listening_Parser_def new_Parser_def getElement_def)
  have rl: "read_length ?p0 = Inr (?p1, True)"
    unfolding read_length_def io sub Let_def parseInt_decimal
    by (simp add: js_chars listening_Parser_def new_Parser_def)
  have lb: "loop_body ?p0 = Inr (?p1, [], True)"
    by (simp only: loop_body_def te sum.case prod.case rl)
  have cond: "js_lt (element_end ?p0) (Num (int (length (buffer ?p0))))"
    by (simp add: listening_Parser_def new_Parser_def)
  have step: "parse_loop ?p0 [] = parse_loop ?p1 []"
    by (subst parse_loop.simps) (simp only: cond lb if_True sum.case prod.case append_Nil)
  have "\<exists>p'. parse_loop ?p1 [] =
          (p', [] @ [(hd (element_buffer ?p1 @ opcode # elements),
                      tl (element_buffer ?p1 @ opcode # elements))], None)"
  proof (rule parse_loop_pending [of ?p1 "?dec @ js ''.''" opcode elements])
    show "buffer ?p1 = (?dec @ js ''.'') @ opcode @ ?rest"
      by (simp add: getElement_def)
    show "start_index ?p1 = Num (int (length (?dec @ js ''.'')))" by simp
    show "element_end ?p1 = Num (int (length (?dec @ js ''.'') + length opcode))" by simp
    show "oninstruction ?p1" by (simp add: listening_Parser_def new_Parser_def)
  qed
  then obtain p' where "parse_loop ?p1 [] = (p', [(opcode, elements)], None)"
    by (auto simp: listening_Parser_def new_Parser_def)
  moreover have "receive ?msg listening_Parser = parse_loop ?p0 []"
    by (simp add: receive_def listening_Parser_def new_Parser_def Let_def)
  ultimately show ?thesis
    using sent step by auto
qed

theorem framing_round_trip_witness:
  "\<exists>msg p'. sendMessage OPEN [js ''sync'', js ''0''] = Some msg
            \<and> receive msg listening_Parser = (p', [(js ''sync'', [js ''0''])], None)"
  using framing_round_trip [of "js ''sync''" "[js ''0'']"] by simp

subsection \<open>The length prefix counts UTF-16 code units\<close>

text \<open>
  Claim C2 as the specification states it fails: the one-character string U+4E16 has
  three UTF-8 bytes, and \<open>getElement\<close> frames it with the prefix \<open>1.\<close>, not \<open>3.\<close>.
\<close>

theorem getElement_U4E16_counterexample:
  "spec_utf8_length [0x4E16] = 3
   \<and> getElement [0x4E16] = js ''1.'' @ [0x4E16]
   \<and> getElement [0x4E16] \<noteq> js ''3.'' @ [0x4E16]
   \<and> sendMessage OPEN [[0x4E16]] = Some (js ''1.'' @ [0x4E16] @ js '';'')"
  by (simp add: spec_utf8_unit_length_def getElement_def sendMessage_def decimal.simps
        digit_def js_def)

text \<open>
  Claim C2, amended.  The prefix that \<open>getElement\<close> writes before the first \<open>.\<close> is the
  decimal text of the number of UTF-16 code units of the element (\<open>parseInt\<close> reads
  that number back from it); U+4E16 is framed as \<open>1.\<close> followed by the character; and
  for an element whose code units are all below U+0080 that number is also its UTF-8
  byte length.
\<close>

theorem getElement_prefix_is_code_unit_count:
  "indexOf (getElement string) 0x2E (Num 0) = int (length (decimal (length string)))
   \<and> parseInt (substring (getElement string) (Num 0)
                 (Num (indexOf (getElement string) 0x2E (Num 0))))
       = Num (int (length string))
   \<and> getElement [0x4E16] = js ''1.'' @ [0x4E16]
   \<and> ((\<forall>c \<in> set string. c < 0x80) \<longrightarrow> spec_utf8_length string = length string)"
proof -
  let ?dec = "decimal (length string)"
  have io: "indexOf (getElement string) 0x2E (Num 0) = int (length ?dec)"
    using indexOf_after_prefix [of "0x2E" ?dec "[]" string]
    by (simp add: getElement_def js_chars decimal_no_dot)
  have "substring ([] @ ?dec @ js ''.'' @ string) (Num 0) (Num (int (length ?dec))) = ?dec"
    by (rule substring_mid) simp_all
  then have sub: "substring (getElement string) (Num 0) (Num (int (length ?dec))) = ?dec"
    by (simp add: getElement_def)
  have ascii: "(\<forall>c \<in> set string. c < 0x80) \<longrightarrow> spec_utf8_length string = length string"
  proof (induction string rule: spec_utf8_length.induct)
    case 1
    show ?case by simp
  next
    case (2 c)
    show ?case by (simp add: spec_utf8_unit_length_def)
  next
    case (3 c d cs)
    have "c < 0x80 \<Longrightarrow> \<not> 0xD800 \<le> c"
      by (simp add: word_less_nat_alt word_le_nat_alt)
    with 3 show ?case by (auto simp: spec_utf8_unit_length_def)
  qed
  have lit: "getElement [0x4E16] = js ''1.'' @ [0x4E16]"
    by (simp add: getElement_def decimal.simps digit_def js_def)
  show ?thesis
    unfolding io sub parseInt_decimal using ascii lit by simp
qed

theorem getElement_prefix_is_code_unit_count_witness:
  "list_all (\<lambda>c. c < 0x80) (js ''sync'')
   \<and> spec_utf8_length (js ''sync'') = length (js ''sync'')
   \<and> length (js ''sync'') = 4"
proof -
  have ascii: "\<forall>c \<in> set (js ''sync''). c < 0x80"
    by (simp add: js_def)
  from getElement_prefix_is_code_unit_count [of "js ''sync''"]
  have "(\<forall>c \<in> set (js ''sync''). c < 0x80)
          \<longrightarrow> spec_utf8_length (js ''sync'') = length (js ''sync'')"
    by (elim conjE)
  with ascii show ?thesis
    by (simp add: js_def)
qed

subsection \<open>Display: the drain renders the ready prefix of the queue\<close>

lemma isReady_loop_iff: "isReady_loop heap ts = (\<forall>t \<in> set ts. \<not> blocked (heap t))"
  by (induction ts) auto

lemma isReady_iff: "isReady d frame = (\<forall>t \<in> set (frame_tasks frame). \<not> blocked (task_heap d t))"
  by (simp add: isReady_def isReady_loop_iff)



lemma isReady_calls [simp]: "isReady (d\<lparr>display_calls := cs\<rparr>) = isReady d"
  by (rule ext) (simp add: isReady_iff)














subsection \<open>ChainedTunnel: failover and the unbound \<open>Status\<close>\<close>

lemma connected_append: "connected (xs @ ys) = connected xs @ connected ys"
  by (induction xs rule: connected.induct) simp_all

text \<open>
  In the ChainedTunnel module \<open>Status\<close> is not bound: an error reported by the tunnel
  that carries the wrappers throws out of \<open>failTunnel\<close>, whatever its code, and leaves
  the chained tunnel as it was.
\<close>

lemma tunnel_onerror_throws:
  "inner_slots c t = Wrappers \<Longrightarrow>
     tunnel_onerror ChainedTunnel_Status_bound t s c = (c, Some (ReferenceError ''Status''))"
  by (simp add: tunnel_onerror_def failTunnel_def ChainedTunnel_Status_bound_def)

text \<open>
  Once the list of tunnels is empty, no untouched tunnel is ever connected, whether
  \<open>Status\<close> is bound or not.
\<close>

lemma emptied_step:
  assumes "tunnels c = []" and "untouched S c"
  shows "tunnels (fst (chain_step b ev c)) = [] \<and> untouched S (fst (chain_step b ev c))
         \<and> (\<exists>new. chain_calls (fst (chain_step b ev c)) = chain_calls c @ new
                   \<and> set (connected new) \<inter> S = {})"
proof (cases ev)
  case (Ev_connect data)
  show ?thesis
  proof (cases "committedTunnel c")
    case None
    with assms show ?thesis
      by (simp add: Ev_connect connect_def untouched_def Let_def)
  next
    case (Some u)
    with assms(2) have "u \<notin> S" by (auto simp: untouched_def)
    with assms Some show ?thesis
      by (auto simp: Ev_connect connect_def attach_def untouched_def Let_def)
  qed
next
  case (Ev_onstatechange u state)
  show ?thesis
  proof (cases "inner_slots c u")
    case Null
    with assms show ?thesis by (simp add: Ev_onstatechange tunnel_onstatechange_def)
  next
    case Forwarding
    with assms show ?thesis
      by (simp add: Ev_onstatechange tunnel_onstatechange_def untouched_def)
  next
    case Wrappers
    with assms(2) have "u \<notin> S" by (auto simp: untouched_def)
    with assms Wrappers show ?thesis
      by (cases state)
         (auto simp: Ev_onstatechange tunnel_onstatechange_def commit_tunnel_def failTunnel_def
                     untouched_def Let_def)
  qed
next
  case (Ev_oninstruction u opcode elements)
  show ?thesis
  proof (cases "inner_slots c u")
    case Null
    with assms show ?thesis by (simp add: Ev_oninstruction tunnel_oninstruction_def)
  next
    case Forwarding
    with assms show ?thesis
      by (simp add: Ev_oninstruction tunnel_oninstruction_def untouched_def)
  next
    case Wrappers
    with assms(2) have "u \<notin> S" by (auto simp: untouched_def)
    with assms Wrappers show ?thesis
      by (auto simp: Ev_oninstruction tunnel_oninstruction_def commit_tunnel_def
                     untouched_def Let_def)
  qed
next
  case (Ev_onerror u status)
  show ?thesis
  proof (cases "inner_slots c u")
    case Null
    with assms show ?thesis by (simp add: Ev_onerror tunnel_onerror_def)
  next
    case Forwarding
    with assms show ?thesis
      by (simp add: Ev_onerror tunnel_onerror_def untouched_def)
  next
    case Wrappers
    with assms show ?thesis
      by (auto simp: Ev_onerror tunnel_onerror_def failTunnel_def untouched_def Let_def)
  qed
qed

lemma fst_run_chain_Cons:
  "fst (run_chain b (ev # events) c) = fst (run_chain b events (fst (chain_step b ev c)))"
  by (simp add: case_prod_beta)

lemma emptied_run:
  assumes "tunnels c = []" and "untouched S c"
  shows "\<exists>new. chain_calls (fst (run_chain b events c)) = chain_calls c @ new
               \<and> set (connected new) \<inter> S = {}"
  using assms
proof (induction events arbitrary: c)
  case Nil
  show ?case by simp
next
  case (Cons ev events)
  from emptied_step [OF Cons.prems, of b ev] obtain new1 where
    s: "tunnels (fst (chain_step b ev c)) = []" "untouched S (fst (chain_step b ev c))"
       "chain_calls (fst (chain_step b ev c)) = chain_calls c @ new1"
       "set (connected new1) \<inter> S = {}"
    by blast
  from Cons.IH [OF s(1,2)] obtain new2 where
    r: "chain_calls (fst (run_chain b events (fst (chain_step b ev c))))
          = chain_calls (fst (chain_step b ev c)) @ new2"
       "set (connected new2) \<inter> S = {}"
    by blast
  have "chain_calls (fst (run_chain b (ev # events) c)) = chain_calls c @ (new1 @ new2)"
    using r(1) s(3) by (simp only: fst_run_chain_Cons append_assoc)
  moreover have "set (connected (new1 @ new2)) \<inter> S = {}"
    using s(4) r(2) by (auto simp: connected_append)
  ultimately show ?case by blast
qed

text \<open>
  Were \<open>Status\<close> bound in the module, the wrappers would do what their comments say.
  Let the wrappers be installed on tunnel \<open>t\<close> (it is attached and not committed).  If
  \<open>t\<close> reports an error whose code is UPSTREAM_TIMEOUT, the list of remaining tunnels
  is emptied, the error goes to the chained tunnel's \<open>onerror\<close> if there is one, no
  \<open>connect\<close> is called; and, the remaining tunnels being untouched, whatever happens
  afterwards no \<open>connect\<close> is called on any of them.  If \<open>t\<close> reports any other error
  while a tunnel \<open>n\<close> is next in the list, then \<open>n\<close> is taken off the list, the slots
  of \<open>t\<close> are cleared, the wrappers are installed on \<open>n\<close>, and \<open>n.connect\<close> is called
  with the connect data; nothing else is called.
\<close>

lemma failover_if_Status_bound:
  assumes "inner_slots c t = Wrappers"
  shows "(js_eq (code s) (Num UPSTREAM_TIMEOUT) \<longrightarrow>
            tunnel_onerror True t s c
              = (c\<lparr>tunnels := [],
                   chain_calls := chain_calls c @ (if ct_onerror c then [Chain_onerror s] else [])\<rparr>,
                 None)
            \<and> (untouched (set (tunnels c)) c \<longrightarrow>
                 (\<forall>b events. \<exists>new.
                     chain_calls (fst (run_chain b events (fst (tunnel_onerror True t s c))))
                       = chain_calls (fst (tunnel_onerror True t s c)) @ new
                     \<and> set (connected new) \<inter> set (tunnels c) = {})))
       \<and> (\<not> js_eq (code s) (Num UPSTREAM_TIMEOUT) \<and> tunnels c = n # rest \<longrightarrow>
            tunnel_onerror True t s c
              = (attach n (c\<lparr>tunnels := rest, inner_slots := (inner_slots c)(t := Null)\<rparr>), None)
            \<and> chain_calls (fst (tunnel_onerror True t s c))
                = chain_calls c @ [Inner_connect n (connect_data c)]
            \<and> inner_slots (fst (tunnel_onerror True t s c))
                = (inner_slots c)(t := Null, n := Wrappers)
            \<and> attached (fst (tunnel_onerror True t s c)) = Some n)"
proof (intro conjI impI)
  assume to: "js_eq (code s) (Num UPSTREAM_TIMEOUT)"
  show eq: "tunnel_onerror True t s c
              = (c\<lparr>tunnels := [],
                   chain_calls := chain_calls c @ (if ct_onerror c then [Chain_onerror s] else [])\<rparr>,
                 None)"
    using assms to by (simp add: tunnel_onerror_def failTunnel_def)
  assume un: "untouched (set (tunnels c)) c"
  have "tunnels (fst (tunnel_onerror True t s c)) = []" by (simp add: eq)
  moreover have "untouched (set (tunnels c)) (fst (tunnel_onerror True t s c))"
    using un by (simp add: eq untouched_def)
  ultimately show "\<forall>b events. \<exists>new.
                     chain_calls (fst (run_chain b events (fst (tunnel_onerror True t s c))))
                       = chain_calls (fst (tunnel_onerror True t s c)) @ new
                     \<and> set (connected new) \<inter> set (tunnels c) = {}"
    using emptied_run by blast
next
  assume a: "\<not> js_eq (code s) (Num UPSTREAM_TIMEOUT) \<and> tunnels c = n # rest"
  then show eq: "tunnel_onerror True t s c
          = (attach n (c\<lparr>tunnels := rest, inner_slots := (inner_slots c)(t := Null)\<rparr>), None)"
    using assms by (simp add: tunnel_onerror_def failTunnel_def)
  show "chain_calls (fst (tunnel_onerror True t s c))
          = chain_calls c @ [Inner_connect n (connect_data c)]"
    and "inner_slots (fst (tunnel_onerror True t s c)) = (inner_slots c)(t := Null, n := Wrappers)"
    and "attached (fst (tunnel_onerror True t s c)) = Some n"
    by (simp_all add: eq attach_def Let_def)
qed

text \<open>
  A tunnel that closes without reporting an error calls \<open>failTunnel\<close> with no status,
  which does not evaluate \<open>Status\<close>: the next tunnel of the list is attached and
  connected, whether \<open>Status\<close> is bound or not.
\<close>

lemma failover_on_close:
  assumes "inner_slots c t = Wrappers" and "tunnels c = n # rest"
  shows "tunnel_onstatechange b t CLOSED c
           = (attach n (c\<lparr>tunnels := rest, inner_slots := (inner_slots c)(t := Null)\<rparr>), None)"
    and "chain_calls (fst (tunnel_onstatechange b t CLOSED c))
           = chain_calls c @ [Inner_connect n (connect_data c)]"
    and "attached (fst (tunnel_onstatechange b t CLOSED c)) = Some n"
  using assms by (simp_all add: tunnel_onstatechange_def failTunnel_def attach_def Let_def)

lemmas chain_eval =
  connect_def attach_def failTunnel_def commit_tunnel_def
  tunnel_onerror_def tunnel_onstatechange_def tunnel_oninstruction_def
  listening_ChainedTunnel_def new_ChainedTunnel_def ChainedTunnel_Status_bound_def
  UPSTREAM_TIMEOUT_def SERVER_ERROR_def Let_def

text \<open>
  Claim C4.  The claim does not hold of the module as it is.  Take a chained tunnel
  over the tunnels 0, 1, 2 with handlers in its slots, after \<open>connect("tok")\<close>: tunnel 0
  is attached and connected, not committed, and 1 and 2 remain.

  If tunnel 0 now reports an error with code UPSTREAM_TIMEOUT, the wrapper throws a
  \<open>ReferenceError\<close>: the remaining list is still 1, 2, the chained tunnel's \<open>onerror\<close> is
  not invoked (the failure does not propagate), and when tunnel 0 and then tunnel 1
  close, \<open>connect\<close> is called on tunnel 1 and then on tunnel 2.

  If tunnel 0 instead reports an error with code SERVER_ERROR, the wrapper throws the
  same \<open>ReferenceError\<close>: tunnel 0 is still the attached one, the remaining list is
  still 1, 2 and \<open>connect\<close> is called on no tunnel.
\<close>

theorem chained_tunnel_onerror_throws_ReferenceError:
  "(let tok = js ''tok'';
        c = fst (run_chain ChainedTunnel_Status_bound [Ev_connect tok]
                   (listening_ChainedTunnel [0, 1, 2]));
        timeout = \<lparr>code = Num UPSTREAM_TIMEOUT, message = Some (js ''Server timeout.'')\<rparr>;
        failure = \<lparr>code = Num SERVER_ERROR, message = Some (js ''Server error'')\<rparr>;
        after_timeout = tunnel_onerror ChainedTunnel_Status_bound 0 timeout c;
        after_failure = tunnel_onerror ChainedTunnel_Status_bound 0 failure c;
        later = run_chain ChainedTunnel_Status_bound
                  [Ev_onerror 0 timeout, Ev_onstatechange 0 CLOSED, Ev_onstatechange 1 CLOSED] c
    in inner_slots c 0 = Wrappers \<and> attached c = Some 0 \<and> committedTunnel c = None
       \<and> tunnels c = [1, 2] \<and> chain_calls c = [Inner_connect 0 (Some tok)]
       \<and> snd after_timeout = Some (ReferenceError ''Status'')
       \<and> tunnels (fst after_timeout) = [1, 2]
       \<and> chain_calls (fst after_timeout) = [Inner_connect 0 (Some tok)]
       \<and> snd later = [ReferenceError ''Status'']
       \<and> chain_calls (fst later)
           = [Inner_connect 0 (Some tok), Inner_connect 1 (Some tok), Inner_connect 2 (Some tok)]
       \<and> connected (chain_calls (fst later)) = [0, 1, 2]
       \<and> snd after_failure = Some (ReferenceError ''Status'')
       \<and> attached (fst after_failure) = Some 0
       \<and> tunnels (fst after_failure) = [1, 2]
       \<and> chain_calls (fst after_failure) = [Inner_connect 0 (Some tok)]
       \<and> connected (chain_calls (fst after_failure)) = [0])"
  by (simp add: chain_eval js_def)

subsection \<open>StringReader: what the UTF-8 decoder does\<close>

text \<open>The bit patterns the decoder tests, read as ranges of the byte.\<close>

lemma unat_byte_less: "unat (b :: 8 word) < 256"
proof -
  have "unat b < 2 ^ LENGTH(8)" by (rule unsigned_less)
  then show ?thesis by simp
qed

lemma unat_ucast_byte: "unat (ucast (b :: 8 word) :: 32 word) = unat b"
proof -
  have "unat b < 4294967296" using unat_byte_less [of b] by linarith
  then have "take_bit 32 (unat b) = unat b"
    by (intro take_bit_nat_eq_self) simp
  then show ?thesis
    by (simp add: unsigned_ucast_eq)
qed
lemma or_mask_eq_iff_nat:
  "(n OR mask k = m OR mask k) = (drop_bit k n = drop_bit k (m::nat))"
proof
  assume e: "n OR mask k = m OR mask k"
  show "drop_bit k n = drop_bit k m"
  proof (rule bit_eqI)
    fix i
    have "bit (n OR mask k) (k + i) = bit n (k + i)"
      by (simp only: bit_or_iff bit_mask_iff) simp
    moreover have "bit (m OR mask k) (k + i) = bit m (k + i)"
      by (simp only: bit_or_iff bit_mask_iff) simp
    ultimately have "bit n (k + i) = bit m (k + i)"
      by (simp only: e)
    then show "bit (drop_bit k n) i = bit (drop_bit k m) i"
      by (simp only: bit_drop_bit_eq comp_apply)
  qed
next
  assume a: "drop_bit k n = drop_bit k m"
  show "n OR mask k = m OR mask k"
  proof (rule bit_eqI)
    fix i
    show "bit (n OR mask k) i = bit (m OR mask k) i"
    proof (cases "i < k")
      case True
      then show ?thesis by (simp only: bit_or_iff bit_mask_iff) simp
    next
      case False
      then have i: "i = k + (i - k)" by simp
      have "bit n (k + (i - k)) = bit (drop_bit k n) (i - k)"
        by (simp only: bit_drop_bit_eq comp_apply)
      moreover have "bit m (k + (i - k)) = bit (drop_bit k m) (i - k)"
        by (simp only: bit_drop_bit_eq comp_apply)
      ultimately have "bit n i = bit m i"
        using a i by simp
      then show ?thesis by (simp only: bit_or_iff)
    qed
  qed
qed

lemma div_eq_iff_range:
  fixes n d q :: nat
  assumes "0 < d"
  shows "(n div d = q) = (q * d \<le> n \<and> n < q * d + d)"
proof
  assume q: "n div d = q"
  have "q * d + n mod d = n" unfolding q [symmetric] by simp
  moreover have "n mod d < d" using assms by simp
  ultimately show "q * d \<le> n \<and> n < q * d + d" by linarith
next
  assume "q * d \<le> n \<and> n < q * d + d"
  then show "n div d = q"
    by (intro div_nat_eqI) (simp_all add: mult.commute)
qed

lemma byte_pattern_iff:
  fixes m c :: "32 word"
  assumes "unat m = mask k" and "unat c OR mask k = unat c"
  shows "((ucast (b :: 8 word) :: 32 word) OR m = c) = (unat b div 2 ^ k = unat c div 2 ^ k)"
proof -
  have "((ucast b :: 32 word) OR m = c) = (unat ((ucast b :: 32 word) OR m) = unat c)"
    by (rule word_unat_eq_iff)
  also have "unat ((ucast b :: 32 word) OR m) = unat b OR mask k"
    by (simp only: unsigned_or_eq unat_ucast_byte assms(1))
  also have "(unat b OR mask k = unat c) = (unat b OR mask k = unat c OR mask k)"
    by (simp only: assms(2))
  also have "\<dots> = (drop_bit k (unat b) = drop_bit k (unat c))"
    by (rule or_mask_eq_iff_nat)
  finally show ?thesis by (simp only: drop_bit_eq_div)
qed


lemma pattern_one_byte: "((ucast (b :: 8 word) :: 32 word) OR 0x7F = 0x7F) = (unat b < 0x80)"
  using byte_pattern_iff [of "0x7F" 7 "0x7F" b] by (simp add: mask_numeral div_eq_iff_range)

lemma pattern_two_bytes: "((ucast (b :: 8 word) :: 32 word) OR 0x1F = 0xDF) = (0xC0 \<le> unat b \<and> unat b < 0xE0)"
  using byte_pattern_iff [of "0x1F" 5 "0xDF" b] by (simp add: mask_numeral div_eq_iff_range)


lemma pattern_three_bytes: "((ucast (b :: 8 word) :: 32 word) OR 0x0F = 0xEF) = (0xE0 \<le> unat b \<and> unat b < 0xF0)"
  using byte_pattern_iff [of "0x0F" 4 "0xEF" b] by (simp add: mask_numeral div_eq_iff_range)

lemma pattern_four_bytes: "((ucast (b :: 8 word) :: 32 word) OR 0x07 = 0xF7) = (0xF0 \<le> unat b \<and> unat b < 0xF8)"
  using byte_pattern_iff [of "0x07" 3 "0xF7" b] by (simp add: mask_numeral div_eq_iff_range)

lemma pattern_continuation: "((ucast (b :: 8 word) :: 32 word) OR 0x3F = 0xBF) = (0x80 \<le> unat b \<and> unat b < 0xC0)"
  using byte_pattern_iff [of "0x3F" 6 "0xBF" b] by (simp add: mask_numeral div_eq_iff_range)

lemmas byte_patterns = pattern_one_byte pattern_two_bytes pattern_three_bytes pattern_four_bytes pattern_continuation

lemma decode_byte_text:
  "decode_byte b (r, t) = (fst (decode_byte b (r, [])), t @ snd (decode_byte b (r, [])))"
  by (simp add: decode_byte_def Let_def)

lemma decode_byte_remaining:
  "0 \<le> bytes_remaining r \<and> bytes_remaining r \<le> 3 \<Longrightarrow>
   0 \<le> bytes_remaining (fst (decode_byte b (r, t))) \<and> bytes_remaining (fst (decode_byte b (r, t))) \<le> 3"
  by (simp add: decode_byte_def Let_def)

lemma decode_byte_invalid_lead:
  assumes "bytes_remaining r = 0" and "0x80 \<le> b \<and> b < 0xC0 \<or> 0xF8 \<le> b"
  shows "decode_byte b (r, t) = (r, t @ [0xFFFD])"
  using assms by (auto simp: decode_byte_def Let_def byte_patterns word_le_nat_alt word_less_nat_alt)

lemma decode_byte_invalid_continuation:
  assumes "bytes_remaining r \<noteq> 0" and "b < 0x80 \<or> 0xC0 \<le> b"
  shows "decode_byte b (r, t) = (r\<lparr>bytes_remaining := 0\<rparr>, t @ [0xFFFD])"
  using assms by (auto simp: decode_byte_def Let_def byte_patterns word_le_nat_alt word_less_nat_alt)

text \<open>The payload bits the decoder accumulates, read arithmetically.\<close>

lemma and_mask_nat: "(n::nat) AND mask k = n mod 2 ^ k"
  by (simp only: take_bit_eq_mask [symmetric] take_bit_eq_mod)

lemma push_bit_or_nat:
  assumes "y < 2 ^ k"
  shows "push_bit k x OR y = x * 2 ^ k + (y::nat)"
proof -
  have y: "take_bit k y = y" using assms by (rule take_bit_nat_eq_self)
  have "push_bit k x + y = push_bit k x OR y"
  proof (rule disjunctive_add)
    fix n
    have "bit y n \<Longrightarrow> n < k"
      by (subst (asm) y [symmetric]) (simp only: bit_take_bit_iff)
    moreover have "bit (push_bit k x) n \<Longrightarrow> k \<le> n"
      by (simp only: bit_push_bit_iff)
    ultimately show "\<not> bit (push_bit k x) n \<or> \<not> bit y n"
      by fastforce
  qed
  then show ?thesis by (simp only: push_bit_eq_mult)
qed

lemma unat_payload:
  fixes m :: "32 word"
  assumes "unat m = mask k"
  shows "unat ((ucast (b :: 8 word) :: 32 word) AND m) = unat b mod 2 ^ k"
  by (simp only: unsigned_and_eq unat_ucast_byte assms and_mask_nat)

lemma unat_accumulate:
  fixes c :: "32 word"
  assumes "unat c < 2 ^ 26"
  shows "unat (push_bit 6 c OR ((ucast (b :: 8 word) :: 32 word) AND 0x3F))
           = unat c * 64 + unat b mod 64"
proof -
  have m: "unat (0x3F :: 32 word) = mask 6" by (simp add: mask_numeral)
  have "push_bit 6 (unat c) < 2 ^ 32"
    using assms by (simp add: push_bit_eq_mult)
  then have p: "unat (push_bit 6 c) = push_bit 6 (unat c)"
    by (simp only: unsigned_push_bit_eq) (simp add: take_bit_nat_eq_self)
  have "unat b mod 2 ^ 6 < 2 ^ 6" by simp
  then have "push_bit 6 (unat c) OR unat b mod 2 ^ 6 = unat c * 2 ^ 6 + unat b mod 2 ^ 6"
    by (rule push_bit_or_nat)
  then show ?thesis
    by (simp only: unsigned_or_eq p unat_payload [OF m]) simp
qed

lemma unat_fromCharCode:
  "unat c < 2 ^ 16 \<Longrightarrow> fromCharCode c = of_nat (unat c)"
  by (simp add: fromCharCode_def)

lemma unat_byte_of_nat: "n < 256 \<Longrightarrow> unat (of_nat n :: 8 word) = n"
  by (simp add: unat_of_nat)

lemma mod_offset:
  fixes base x d :: nat
  assumes "base mod d = 0" and "x < d"
  shows "(base + x) mod d = x"
proof -
  have "(base + x) mod d = (base mod d + x) mod d"
    by (simp only: mod_add_left_eq)
  then show ?thesis using assms by simp
qed

lemma decode_one_byte:
  assumes "bytes_remaining r = 0" and "unat b = cp" and "cp < 0x80"
  shows "decode_byte b (r, t) = (r, t @ [of_nat cp])"
proof -
  have "unat (ucast b :: 32 word) = cp"
    by (simp only: unat_ucast_byte assms(2))
  then have "fromCharCode (ucast b) = of_nat cp"
    using assms(3) unat_fromCharCode [of "ucast b"] by simp
  then show ?thesis
    using assms by (simp add: decode_byte_def Let_def byte_patterns)
qed

lemma decode_continuation:
  assumes "bytes_remaining r = n + 1" and "unat (codepoint r) = c" and "c < 2 ^ 26"
    and "unat b = 0x80 + y" and "y < 64" and "0 \<le> n"
  shows "\<exists>r'. decode_byte b (r, t)
               = (r', if n = 0 then t @ [fromCharCode (codepoint r')] else t)
             \<and> bytes_remaining r' = n \<and> unat (codepoint r') = c * 64 + y"
proof -
  have cont: "(ucast b :: 32 word) OR 0x3F = 0xBF"
    using assms(5) by (simp add: pattern_continuation assms(4))
  have "(0x80 + y) mod 64 = y" using assms(5) by (intro mod_offset) simp_all
  then have acc: "unat (push_bit 6 (codepoint r) OR ((ucast b :: 32 word) AND 0x3F)) = c * 64 + y"
    using unat_accumulate [of "codepoint r" b] assms(2,3) by (simp add: assms(4))
  show ?thesis
    using assms(1,6) acc by (simp add: decode_byte_def Let_def cont)
qed

lemma decode_lead2:
  assumes "bytes_remaining r = 0" and "unat b = 0xC0 + x" and "x < 32"
  shows "\<exists>r'. decode_byte b (r, t) = (r', t) \<and> bytes_remaining r' = 1 \<and> unat (codepoint r') = x"
proof -
  have m: "unat (0x1F :: 32 word) = mask 5" by (simp add: mask_numeral)
  have "(0xC0 + x) mod 2 ^ 5 = x" using assms(3) by (intro mod_offset) simp_all
  then have "unat ((ucast b :: 32 word) AND 0x1F) = x"
    by (simp only: unat_payload [OF m] assms(2))
  then show ?thesis
    using assms by (simp add: decode_byte_def Let_def byte_patterns)
qed

lemma decode_lead3:
  assumes "bytes_remaining r = 0" and "unat b = 0xE0 + x" and "x < 16"
  shows "\<exists>r'. decode_byte b (r, t) = (r', t) \<and> bytes_remaining r' = 2 \<and> unat (codepoint r') = x"
proof -
  have m: "unat (0x0F :: 32 word) = mask 4" by (simp add: mask_numeral)
  have "(0xE0 + x) mod 2 ^ 4 = x" using assms(3) by (intro mod_offset) simp_all
  then have "unat ((ucast b :: 32 word) AND 0x0F) = x"
    by (simp only: unat_payload [OF m] assms(2))
  then show ?thesis
    using assms by (simp add: decode_byte_def Let_def byte_patterns)
qed


lemma decode_utf8_Cons:
  "decode_utf8 (b # bs) r =
     (let (r1, t1) = decode_byte b (r, []); (r2, t2) = decode_utf8 bs r1 in (r2, t1 @ t2))"
proof -
  have gen: "\<And>r t. fold decode_byte bs (r, t)
               = (fst (fold decode_byte bs (r, [])), t @ snd (fold decode_byte bs (r, [])))"
  proof (induction bs)
    case Nil
    show ?case by simp
  next
    case (Cons a bs)
    obtain r1 t1 where s: "decode_byte a (r, []) = (r1, t1)" by (cases "decode_byte a (r, [])")
    have "decode_byte a (r, t) = (r1, t @ t1)"
      using decode_byte_text [of a r t] by (simp add: s)
    then show ?case
      using Cons.IH [of r1 "t @ t1"] Cons.IH [of r1 t1] by (simp add: s)
  qed
  obtain r1 t1 where s: "decode_byte b (r, []) = (r1, t1)" by (cases "decode_byte b (r, [])")
  show ?thesis
    using gen [of r1 t1] by (simp add: decode_utf8_def s split: prod.splits)
qed

lemma decode_utf8_Nil: "decode_utf8 [] r = (r, [])"
  by (simp add: decode_utf8_def)

lemma decode_utf8_append:
  "decode_utf8 (xs @ ys) r =
     (let (r1, t1) = decode_utf8 xs r; (r2, t2) = decode_utf8 ys r1 in (r2, t1 @ t2))"
proof (induction xs arbitrary: r)
  case Nil
  show ?case by (simp add: decode_utf8_Nil split: prod.splits)
next
  case (Cons x xs)
  show ?case
    by (simp add: decode_utf8_Cons Cons.IH split: prod.splits)
qed

lemma decode_chunks_concat:
  "fst (decode_chunks chunks r) = fst (decode_utf8 (concat chunks) r)
   \<and> concat (snd (decode_chunks chunks r)) = snd (decode_utf8 (concat chunks) r)"
proof (induction chunks arbitrary: r)
  case Nil
  show ?case by (simp add: decode_utf8_Nil)
next
  case (Cons c cs)
  obtain r1 t1 where s: "decode_utf8 c r = (r1, t1)" by (cases "decode_utf8 c r")
  show ?case
    using Cons.IH [of r1] by (auto simp: s decode_utf8_append split: prod.splits)
qed

lemma decode_utf8_remaining:
  "0 \<le> bytes_remaining r \<and> bytes_remaining r \<le> 3 \<Longrightarrow>
   0 \<le> bytes_remaining (fst (decode_utf8 bytes r))
   \<and> bytes_remaining (fst (decode_utf8 bytes r)) \<le> 3"
proof (induction bytes arbitrary: r)
  case Nil
  then show ?case by (simp add: decode_utf8_Nil)
next
  case (Cons b bs)
  obtain r1 t1 where s: "decode_byte b (r, []) = (r1, t1)" by (cases "decode_byte b (r, [])")
  with decode_byte_remaining [OF Cons.prems, of b "[]"]
  have "0 \<le> bytes_remaining r1 \<and> bytes_remaining r1 \<le> 3" by simp
  from Cons.IH [OF this] show ?case
    by (auto simp: decode_utf8_Cons s split: prod.splits)
qed

text \<open>A well-formed sequence of one, two or three bytes.\<close>

lemma decode_well_formed:
  assumes br: "bytes_remaining r = 0" and cp: "cp < 0x10000"
  shows "\<exists>r'. decode_utf8 (spec_utf8_encode cp) r = (r', [of_nat cp]) \<and> bytes_remaining r' = 0"
proof -
  consider (one) "cp < 0x80" | (two) "0x80 \<le> cp" "cp < 0x800" | (three) "0x800 \<le> cp"
    by linarith
  then show ?thesis
  proof cases
    case one
    have "unat (of_nat cp :: 8 word) = cp"
      by (rule unat_byte_of_nat) (use one in simp)
    from decode_one_byte [OF br this one, of "[]"] show ?thesis
      using one br by (simp add: spec_utf8_encode_def decode_utf8_Cons decode_utf8_Nil)
  next
    case two
    let ?x = "cp div 0x40" and ?y = "cp mod 0x40"
    let ?b1 = "of_nat (0xC0 + ?x) :: 8 word" and ?b2 = "of_nat (0x80 + ?y) :: 8 word"
    have x: "?x < 32" using two by simp
    have y: "?y < 64" by simp
    have u1: "unat ?b1 = 0xC0 + ?x" by (rule unat_byte_of_nat) (use x in simp)
    have u2: "unat ?b2 = 0x80 + ?y" by (rule unat_byte_of_nat) (use y in simp)
    from decode_lead2 [OF br u1 x, of "[]"] obtain r1 where
      r1: "decode_byte ?b1 (r, []) = (r1, [])" "bytes_remaining r1 = 1" "unat (codepoint r1) = ?x"
      by blast
    have "\<exists>r'. decode_byte ?b2 (r1, [])
               = (r', if (0::int) = 0 then [] @ [fromCharCode (codepoint r')] else [])
             \<and> bytes_remaining r' = 0 \<and> unat (codepoint r') = ?x * 64 + ?y"
      by (rule decode_continuation [OF _ r1(3) _ u2 y]) (use r1(2) x in simp_all)
    then obtain r2 where
      r2: "decode_byte ?b2 (r1, []) = (r2, [fromCharCode (codepoint r2)])"
          "bytes_remaining r2 = 0" "unat (codepoint r2) = ?x * 64 + ?y"
      by auto
    have "unat (codepoint r2) = cp" using r2(3) by simp
    then have "fromCharCode (codepoint r2) = of_nat cp"
      using cp unat_fromCharCode [of "codepoint r2"] by simp
    then show ?thesis
      using two r1 r2 by (simp add: spec_utf8_encode_def decode_utf8_Cons decode_utf8_Nil)
  next
    case three
    let ?a = "cp div 0x1000" and ?m = "cp div 0x40 mod 0x40" and ?y = "cp mod 0x40"
    let ?b1 = "of_nat (0xE0 + ?a) :: 8 word" and ?b2 = "of_nat (0x80 + ?m) :: 8 word"
    let ?b3 = "of_nat (0x80 + ?y) :: 8 word"
    have a: "?a < 16" using cp by simp
    have m: "?m < 64" and y: "?y < 64" by simp_all
    have u1: "unat ?b1 = 0xE0 + ?a" by (rule unat_byte_of_nat) (use a in simp)
    have u2: "unat ?b2 = 0x80 + ?m" by (rule unat_byte_of_nat) (use m in simp)
    have u3: "unat ?b3 = 0x80 + ?y" by (rule unat_byte_of_nat) (use y in simp)
    from decode_lead3 [OF br u1 a, of "[]"] obtain r1 where
      r1: "decode_byte ?b1 (r, []) = (r1, [])" "bytes_remaining r1 = 2" "unat (codepoint r1) = ?a"
      by blast
    have "\<exists>r'. decode_byte ?b2 (r1, [])
               = (r', if (1::int) = 0 then [] @ [fromCharCode (codepoint r')] else [])
             \<and> bytes_remaining r' = 1 \<and> unat (codepoint r') = ?a * 64 + ?m"
      by (rule decode_continuation [OF _ r1(3) _ u2 m]) (use r1(2) a in simp_all)
    then obtain r2 where
      r2: "decode_byte ?b2 (r1, []) = (r2, [])"
          "bytes_remaining r2 = 1" "unat (codepoint r2) = ?a * 64 + ?m"
      by auto
    have "\<exists>r'. decode_byte ?b3 (r2, [])
               = (r', if (0::int) = 0 then [] @ [fromCharCode (codepoint r')] else [])
             \<and> bytes_remaining r' = 0 \<and> unat (codepoint r') = (?a * 64 + ?m) * 64 + ?y"
      by (rule decode_continuation [OF _ r2(3) _ u3 y]) (use r2(2) a m in simp_all)
    then obtain r3 where
      r3: "decode_byte ?b3 (r2, []) = (r3, [fromCharCode (codepoint r3)])"
          "bytes_remaining r3 = 0" "unat (codepoint r3) = (?a * 64 + ?m) * 64 + ?y"
      by auto
    have "cp div 0x1000 = cp div 0x40 div 0x40"
      using div_mult2_eq [of cp "0x40" "0x40"] by simp
    then have "?a * 64 + ?m = cp div 0x40" by simp
    then have "unat (codepoint r3) = cp" using r3(3) by simp
    then have "fromCharCode (codepoint r3) = of_nat cp"
      using cp unat_fromCharCode [of "codepoint r3"] by simp
    then show ?thesis
      using three cp r1 r2 r3
      by (simp add: spec_utf8_encode_def decode_utf8_Cons decode_utf8_Nil)
  qed
qed

text \<open>
  Claim C9 as the specification states it fails.  The well-formed four-byte sequence
  of U+1F600 is decoded to the single code unit U+F600 (\<open>String.fromCharCode\<close> keeps 16
  bits), not to the code point; the bytes \<open>ED A0 80\<close> are decoded to the unpaired
  surrogate U+D800, so the text is not a valid Unicode string; and after the lead byte
  \<open>C3\<close> the well-formed one-byte sequence \<open>41\<close> is consumed by the U+FFFD that
  replaces the broken sequence.
\<close>

theorem decode_utf8_counterexample:
  "spec_utf8_encode 0x1F600 = [0xF0, 0x9F, 0x98, 0x80]
   \<and> spec_utf16 0x1F600 = [0xD83D, 0xDE00]
   \<and> snd (decode_utf8 [0xF0, 0x9F, 0x98, 0x80] new_StringReader) = [0xF600]
   \<and> snd (decode_utf8 [0xED, 0xA0, 0x80] new_StringReader) = [0xD800]
   \<and> snd (decode_utf8 [0xC3, 0x41] new_StringReader) = [0xFFFD]"
  by (simp add: spec_utf8_encode_def spec_utf16_def decode_utf8_def decode_byte_def
        new_StringReader_def fromCharCode_def Let_def)

text \<open>
  Claim C9, amended.  The decoder returns for every input, and: (1) the text and the
  final state do not depend on how the bytes are cut into buffers; (2) from a state
  with 0 to 3 bytes outstanding it reaches such a state again; (3) with no sequence
  open, a byte in 0x80--0xBF or 0xF8--0xFF is replaced by U+FFFD; (4) inside a
  sequence, a byte that is not a continuation byte is replaced by U+FFFD and the
  sequence is abandoned; (5) with no sequence open, the UTF-8 encoding of a code point
  below U+10000 is decoded to that code point, and no sequence is left open.
\<close>

theorem decode_utf8_amended:
  "(fst (decode_chunks chunks r) = fst (decode_utf8 (concat chunks) r)
      \<and> concat (snd (decode_chunks chunks r)) = snd (decode_utf8 (concat chunks) r))
   \<and> (0 \<le> bytes_remaining r \<and> bytes_remaining r \<le> 3 \<longrightarrow>
        0 \<le> bytes_remaining (fst (decode_utf8 bytes r))
        \<and> bytes_remaining (fst (decode_utf8 bytes r)) \<le> 3)
   \<and> (bytes_remaining r = 0 \<and> (0x80 \<le> b \<and> b < 0xC0 \<or> 0xF8 \<le> b) \<longrightarrow>
        decode_utf8 [b] r = (r, [0xFFFD]))
   \<and> (bytes_remaining r \<noteq> 0 \<and> (b < 0x80 \<or> 0xC0 \<le> b) \<longrightarrow>
        decode_utf8 [b] r = (r\<lparr>bytes_remaining := 0\<rparr>, [0xFFFD]))
   \<and> (bytes_remaining r = 0 \<and> cp < 0x10000 \<longrightarrow>
        (\<exists>r'. decode_utf8 (spec_utf8_encode cp) r = (r', spec_utf16 cp)
              \<and> bytes_remaining r' = 0))"
proof (intro conjI impI)
  show "fst (decode_chunks chunks r) = fst (decode_utf8 (concat chunks) r)"
    and "concat (snd (decode_chunks chunks r)) = snd (decode_utf8 (concat chunks) r)"
    using decode_chunks_concat [of chunks r] by simp_all
next
  assume a: "0 \<le> bytes_remaining r \<and> bytes_remaining r \<le> 3"
  from decode_utf8_remaining [OF a, of bytes]
  show "0 \<le> bytes_remaining (fst (decode_utf8 bytes r))"
    and "bytes_remaining (fst (decode_utf8 bytes r)) \<le> 3"
    by simp_all
next
  assume "bytes_remaining r = 0 \<and> (0x80 \<le> b \<and> b < 0xC0 \<or> 0xF8 \<le> b)"
  then show "decode_utf8 [b] r = (r, [0xFFFD])"
    using decode_byte_invalid_lead [of r b "[]"] by (simp add: decode_utf8_def)
next
  assume "bytes_remaining r \<noteq> 0 \<and> (b < 0x80 \<or> 0xC0 \<le> b)"
  then show "decode_utf8 [b] r = (r\<lparr>bytes_remaining := 0\<rparr>, [0xFFFD])"
    using decode_byte_invalid_continuation [of r b "[]"] by (simp add: decode_utf8_def)
next
  assume "bytes_remaining r = 0 \<and> cp < 0x10000"
  then show "\<exists>r'. decode_utf8 (spec_utf8_encode cp) r = (r', spec_utf16 cp)
                  \<and> bytes_remaining r' = 0"
    using decode_well_formed [of r cp] by (simp add: spec_utf16_def)
qed

theorem decode_utf8_amended_witness:
  "concat (snd (decode_chunks [[0xE4, 0xB8], [0x96]] new_StringReader))
     = snd (decode_utf8 [0xE4, 0xB8, 0x96] new_StringReader)
   \<and> decode_utf8 [0x80] new_StringReader = (new_StringReader, [0xFFFD])
   \<and> decode_utf8 [0x41] \<lparr>bytes_remaining = 1, codepoint = 3\<rparr>
       = (\<lparr>bytes_remaining = 0, codepoint = 3\<rparr>, [0xFFFD])
   \<and> (\<exists>r'. decode_utf8 (spec_utf8_encode 0x4E16) new_StringReader = (r', [0x4E16])
            \<and> bytes_remaining r' = 0)"
  using decode_utf8_amended [of "[[0xE4, 0xB8], [0x96]]" new_StringReader "[]" "0x80" "0x4E16"]
        decode_utf8_amended [of "[]" "\<lparr>bytes_remaining = 1, codepoint = 3\<rparr>" "[]" "0x41" 0]
  by (simp add: new_StringReader_def spec_utf16_def)

subsection \<open>Client: instructions for a stream that is not live\<close>

text \<open>
  Claim C10.  A \<open>blob\<close> or \<open>end\<close> instruction whose index has no entry in \<open>streams\<close>,
  and an \<open>ack\<close> instruction whose index has no entry in \<open>output_streams\<close>, leave the
  client as it was: no handler is invoked, and both tables and the index pool are unchanged.
\<close>

theorem stream_handlers_ignore_dead_index:
  "(streams c (parseInt_param (param parameters 0)) = None \<longrightarrow>
      handle_blob parameters c = c \<and> handle_end parameters c = c)
   \<and> (output_streams c (parseInt_param (param parameters 0)) = None \<longrightarrow>
      handle_ack parameters c = c)"
  by (simp add: handle_blob_def handle_end_def handle_ack_def Let_def)

theorem stream_handlers_ignore_dead_index_witness:
  "(let c = \<lparr>streams = [Num 1 \<mapsto> \<lparr>onblob = True, onend = True\<rparr>],
             output_streams = [Num 0 \<mapsto> \<lparr>onack = True\<rparr>],
             stream_indices = \<lparr>pool = [], next_int = 1\<rparr>,
             stream_calls = []\<rparr>
    in streams c (Num 7) = None \<and> output_streams c (Num 7) = None
       \<and> handle_blob [js ''7'', js ''AAAA''] c = c
       \<and> handle_end [js ''7'', js ''AAAA''] c = c
       \<and> handle_ack [js ''7'', js ''AAAA''] c = c)"
  using stream_handlers_ignore_dead_index
          [of "\<lparr>streams = [Num 1 \<mapsto> \<lparr>onblob = True, onend = True\<rparr>],
                output_streams = [Num 0 \<mapsto> \<lparr>onack = True\<rparr>],
                stream_indices = \<lparr>pool = [], next_int = 1\<rparr>,
                stream_calls = []\<rparr>"
              "[js ''7'', js ''AAAA'']"]
  by (simp add: js_eval)

subsection \<open>Client: an \<open>ack\<close> with a negative code\<close>

text \<open>
  Claim C6, evaluated.  Output stream 0 is live and has an \<open>onack\<close> handler; the server
  sends \<open>ack\<close> with code \<open>-1\<close>.  The handler is invoked with a status carrying \<open>-1\<close>,
  which \<open>Status.isError\<close> counts as an error, but the test \<open>code >= 0x0100\<close> fails:
  the stream stays in the table and its index is not returned to the pool.
\<close>

theorem ack_negative_code_keeps_stream:
  "(let c = \<lparr>streams = Map.empty,
             output_streams = [Num 0 \<mapsto> \<lparr>onack = True\<rparr>],
             stream_indices = \<lparr>pool = [], next_int = 1\<rparr>,
             stream_calls = []\<rparr>;
        st = \<lparr>code = Num (- 1), message = Some (js ''err'')\<rparr>;
        c' = handle_ack [js ''0'', js ''err'', js ''-1''] c
    in stream_calls c' = [Call_onack (Num 0) st]
       \<and> isError st
       \<and> output_streams c' (Num 0) = Some \<lparr>onack = True\<rparr>
       \<and> stream_indices c' = stream_indices c)"
  by (simp add: handle_ack_def isError_def js_eval)

subsection \<open>ArrayBufferWriter: a payload one byte over the blob size\<close>

text \<open>
  Claim C5, evaluated.  For a payload of 8065 bytes \<open>sendData\<close> sends two blobs: the
  first carries all 8065 bytes (the slice ends at \<open>offset + 8094\<close>), the second the last
  byte again.  The first blob is over 8064 bytes and the blobs together hold 8066 bytes.
\<close>

theorem sendData_8065_bytes:
  "sendData (replicate 8065 0) = [replicate 8065 0, [0]]
   \<and> length (hd (sendData (replicate 8065 0))) = 8065
   \<and> length (concat (sendData (replicate 8065 0))) = 8066"
  by (simp add: sendData_def sendData_loop.simps subarray_def)

subsection \<open>Parser: a length that is not a number\<close>

text \<open>
  Claim C7, evaluated.  On \<open>a.b;\<close> the length text is \<open>a\<close>: \<open>parseInt\<close> gives \<open>NaN\<close>,
  the test \<open>length == NaN\<close> is false, nothing is thrown, and \<open>element_end\<close> becomes
  \<open>NaN\<close>; from then on the loop condition is false and a well-formed instruction
  received later is never handed out.  On \<open>1x.b;\<close> the length text \<open>1x\<close> is read as 1
  and the instruction \<open>b\<close> is handed out.
\<close>

theorem receive_non_digit_length_no_error:
  "receive (js ''a.b;'') listening_Parser =
     (\<lparr>buffer = js ''a.b;'', element_buffer = [], element_end = NaN,
       start_index = Num 2, oninstruction = True\<rparr>, [], None)
   \<and> receive (js ''4.sync;'')
        \<lparr>buffer = js ''a.b;'', element_buffer = [], element_end = NaN,
         start_index = Num 2, oninstruction = True\<rparr> =
     (\<lparr>buffer = js ''a.b;4.sync;'', element_buffer = [], element_end = NaN,
       start_index = Num 2, oninstruction = True\<rparr>, [], None)
   \<and> receive (js ''1x.b;'') listening_Parser =
     (\<lparr>buffer = js ''1x.b;'', element_buffer = [], element_end = Num 4,
       start_index = Num 5, oninstruction = True\<rparr>, [(js ''b'', [])], None)"
  by (simp add: receive_def listening_Parser_def new_Parser_def parse_loop.simps loop_body_def take_element_def
        read_length_def js_eval)

end
